theory Spec2Isabelle
  imports Main "HOL-Library.Word" "HOL-Library.Sublist"
begin

unbundle bit_operations_syntax

section \<open>Block cache (package beacon)\<close>

subsection \<open>Data model\<close>

text \<open>
  \<^verbatim>\<open>phase0.Root\<close> is a 32-byte array, \<^verbatim>\<open>phase0.Slot\<close> a \<^verbatim>\<open>uint64\<close>.
  A \<^verbatim>\<open>*Block\<close> is a reference into the store of block objects; two references
  are the same instance exactly when they are equal.
\<close>

type_synonym Root = "256 word"
type_synonym Slot = "64 word"
type_synonym u64 = "64 word"
type_synonym blockRef = nat

text \<open>
  The \<^verbatim>\<open>Block\<close> struct is declared outside the files at hand. The fields below are the
  ones the cache reads (\<^verbatim>\<open>Root\<close>, \<^verbatim>\<open>Slot\<close>) together with the attributes the
  specification lists for a block: the parent root (nil until the header is loaded), the
  memoized dependent root, the fork id, the two persistence flags and the decoded
  execution-block index (number and hash), present once available.
\<close>

record BlockBodyIndex =
  ExecutionNumber :: u64
  ExecutionHash :: "256 word"

record Block =
  Root :: Root
  Slot :: Slot
  parentRoot :: "Root option"
  dependentRoot :: "Root option"
  forkId :: u64
  isInFinalizedDb :: bool
  isInUnfinalizedDb :: bool
  blockIndex :: "BlockBodyIndex option"

text \<open>
  Modelled from the spec: \<^verbatim>\<open>newBlock(dynSsz, root, slot)\<close>, the constructor of a block
  object, is missing here. A block is created on first observation with its identity
  (root, slot) only; header, body and every derived attribute are populated later.
\<close>

definition newBlock :: "Root \<Rightarrow> Slot \<Rightarrow> Block" where
  "newBlock root slot =
     \<lparr> Root = root, Slot = slot, parentRoot = None, dependentRoot = None,
       forkId = 0, isInFinalizedDb = False, isInUnfinalizedDb = False, blockIndex = None \<rparr>"

text \<open>
  Modelled from the spec: \<^verbatim>\<open>Block.GetParentRoot()\<close> is missing here. It yields the
  parent root of the block, nil as long as the header has not been loaded.
\<close>

definition GetParentRoot :: "Block \<Rightarrow> Root option" where
  "GetParentRoot b = parentRoot b"

text \<open>
  Modelled from the spec: \<^verbatim>\<open>Block.GetBlockIndex()\<close> and \<^verbatim>\<open>Block.GetForkId()\<close> are missing
  here. They read the decoded execution-block index, nil until available, and the fork id.
\<close>

definition GetBlockIndex :: "Block \<Rightarrow> BlockBodyIndex option" where
  "GetBlockIndex b = blockIndex b"

definition GetForkId :: "Block \<Rightarrow> u64" where
  "GetForkId b = forkId b"

text \<open>
  The cache struct. \<^verbatim>\<open>highestSlot\<close> and \<^verbatim>\<open>lowestSlot\<close> are \<^verbatim>\<open>int64\<close>: 64-bit words
  compared as signed numbers. The maps hold references; \<open>heap\<close> is the store of the block
  objects the references point to, and \<open>nextRef\<close> the next unused reference (allocation
  by \<^verbatim>\<open>newBlock\<close> always yields a reference that did not exist before).
\<close>

record blockCache =
  highestSlot :: "64 word"
  lowestSlot :: "64 word"
  slotMap :: "Slot \<rightharpoonup> blockRef list"
  rootMap :: "Root \<rightharpoonup> blockRef"
  heap :: "blockRef \<Rightarrow> Block"
  nextRef :: blockRef

subsection \<open>Operations\<close>

text \<open>
  \<^verbatim>\<open>newBlockCache\<close> sets the two maps only; the slot bounds keep Go's zero value.
  The store of a fresh cache holds no object yet (every cell reads as a default block
  that no map refers to).
\<close>

definition newBlockCache :: blockCache where
  "newBlockCache =
     \<lparr> highestSlot = 0, lowestSlot = 0, slotMap = Map.empty, rootMap = Map.empty,
       heap = (\<lambda>_. newBlock 0 0), nextRef = 0 \<rparr>"

text \<open>\<^verbatim>\<open>int64(slot)\<close> keeps the 64 bits of the slot and reads them as a signed number.\<close>

definition int64 :: "Slot \<Rightarrow> 64 word" where
  "int64 slot = slot"

definition createOrGetBlock :: "Root \<Rightarrow> Slot \<Rightarrow> blockCache \<Rightarrow> (blockRef \<times> bool) \<times> blockCache" where
  "createOrGetBlock root slot cache =
     (case rootMap cache root of
        Some existing \<Rightarrow> ((existing, False), cache)
      | None \<Rightarrow>
          let cacheBlock = nextRef cache;
              c1 = cache\<lparr> heap := (heap cache)(cacheBlock := newBlock root slot),
                          nextRef := Suc cacheBlock \<rparr>;
              c2 = c1\<lparr> rootMap := (rootMap c1)(root \<mapsto> cacheBlock) \<rparr>;
              c3 = (case slotMap c2 slot of
                      None \<Rightarrow> c2\<lparr> slotMap := (slotMap c2)(slot \<mapsto> [cacheBlock]) \<rparr>
                    | Some bs \<Rightarrow> c2\<lparr> slotMap := (slotMap c2)(slot \<mapsto> bs @ [cacheBlock]) \<rparr>);
              c4 = (if highestSlot c3 <s int64 slot
                    then c3\<lparr> highestSlot := int64 slot \<rparr> else c3);
              c5 = (if lowestSlot c4 <s 0 \<or> int64 slot <s lowestSlot c4
                    then c4\<lparr> lowestSlot := int64 slot \<rparr> else c4)
          in ((cacheBlock, True), c5))"

definition getBlockByRoot :: "Root \<Rightarrow> blockCache \<Rightarrow> blockRef option" where
  "getBlockByRoot root cache = rootMap cache root"

text \<open>\<^verbatim>\<open>getBlocksBySlot\<close> returns a copy of the bucket; a missing bucket reads as empty.\<close>

definition getBlocksBySlot :: "Slot \<Rightarrow> blockCache \<Rightarrow> blockRef list" where
  "getBlocksBySlot slot cache = (case slotMap cache slot of None \<Rightarrow> [] | Some bs \<Rightarrow> bs)"

text \<open>
  \<^verbatim>\<open>removeBlock\<close>: the loop over a bucket of more than one entry cuts out the first
  entry that is the given reference (\<^verbatim>\<open>append(slotBlocks[:i], slotBlocks[i+1:]...)\<close>, then
  \<^verbatim>\<open>break\<close>) and leaves the bucket as it is when there is none; that is \<open>remove1\<close>.
\<close>

definition removeBlock :: "blockRef \<Rightarrow> blockCache \<Rightarrow> blockCache" where
  "removeBlock block cache =
     (let b = heap cache block;
          c1 = cache\<lparr> rootMap := (rootMap cache)(Root b := None) \<rparr>;
          slotBlocks = (case slotMap c1 (Slot b) of None \<Rightarrow> [] | Some bs \<Rightarrow> bs)
      in if length slotBlocks = 1 \<and> slotBlocks ! 0 = block
         then c1\<lparr> slotMap := (slotMap c1)(Slot b := None) \<rparr>
         else if length slotBlocks > 1
         then c1\<lparr> slotMap := (slotMap c1)(Slot b \<mapsto> remove1 block slotBlocks) \<rparr>
         else c1)"

text \<open>The number of blocks the cache tracks: the entries of the root index.\<close>

definition trackedBlockCount :: "blockCache \<Rightarrow> nat" where
  "trackedBlockCount cache = card (dom (rootMap cache))"

text \<open>A run of inserts, each given as (root, slot), applied from left to right.\<close>

fun insertAll :: "(Root \<times> Slot) list \<Rightarrow> blockCache \<Rightarrow> blockCache" where
  "insertAll [] cache = cache"
| "insertAll ((root, slot) # rest) cache = insertAll rest (snd (createOrGetBlock root slot cache))"

subsection \<open>Canonical distance\<close>

text \<open>
  The loop of \<^verbatim>\<open>getCanonicalDistance\<close>. \<open>block\<close> is the block looked for, \<open>canonicalBlock\<close>
  the block the walk stands on, \<open>distance\<close> the \<^verbatim>\<open>uint64\<close> hop counter. The loop has no
  bound of its own when \<open>maxDistance\<close> is 0, so a walk that never returns is the value
  \<open>None\<close>.
\<close>

partial_function (option) canonicalWalk ::
  "blockCache \<Rightarrow> blockRef \<Rightarrow> Root \<Rightarrow> u64 \<Rightarrow> blockRef \<Rightarrow> u64 \<Rightarrow> (bool \<times> u64) option" where
  "canonicalWalk cache block blockRoot maxDistance canonicalBlock distance =
     (if Slot (heap cache canonicalBlock) < Slot (heap cache block) then Some (False, 0)
      else case GetParentRoot (heap cache canonicalBlock) of
        None \<Rightarrow> Some (False, 0)
      | Some parentRoot' \<Rightarrow>
          if maxDistance > 0 \<and> distance + 1 > maxDistance then Some (False, 0)
          else if parentRoot' = blockRoot then Some (True, distance + 1)
          else (case getBlockByRoot parentRoot' cache of
                  None \<Rightarrow> Some (False, 0)
                | Some parent \<Rightarrow>
                    canonicalWalk cache block blockRoot maxDistance parent (distance + 1)))"

definition getCanonicalDistance :: "Root \<Rightarrow> Root \<Rightarrow> u64 \<Rightarrow> blockCache \<Rightarrow> (bool \<times> u64) option" where
  "getCanonicalDistance blockRoot head maxDistance cache =
     (case getBlockByRoot blockRoot cache of
        None \<Rightarrow> Some (False, 0)
      | Some block \<Rightarrow>
          (case getBlockByRoot head cache of
             None \<Rightarrow> Some (False, 0)
           | Some canonicalBlock \<Rightarrow>
               if Root (heap cache canonicalBlock) = blockRoot then Some (True, 0)
               else canonicalWalk cache block blockRoot maxDistance canonicalBlock 0))"

definition isCanonicalBlock :: "Root \<Rightarrow> Root \<Rightarrow> blockCache \<Rightarrow> bool option" where
  "isCanonicalBlock blockRoot head cache =
     map_option fst (getCanonicalDistance blockRoot head 0 cache)"

text \<open>
  The specification's notion, in its own words: \<open>r\<close> is the ancestor of \<open>head\<close>
  reached by exactly \<open>d\<close> parent-root hops. A hop leaves a cached block through its
  loaded parent root; \<open>parentHops cache head d\<close> is the root \<open>d\<close> hops above \<open>head\<close>,
  or \<open>None\<close> when a link on the way is missing.
\<close>

fun parentHops :: "blockCache \<Rightarrow> Root \<Rightarrow> nat \<Rightarrow> Root option" where
  "parentHops cache root 0 = Some root"
| "parentHops cache root (Suc d) =
     (case getBlockByRoot root cache of
        None \<Rightarrow> None
      | Some b \<Rightarrow>
          (case GetParentRoot (heap cache b) of
             None \<Rightarrow> None
           | Some parent \<Rightarrow> parentHops cache parent d))"

text \<open>
  The shape of a beacon chain: a block's slot is greater than the slot of its parent.
  The cache does not check it; it is a property of the headers it is fed.
\<close>

definition slotsDescend :: "blockCache \<Rightarrow> bool" where
  "slotsDescend cache \<longleftrightarrow>
     (\<forall>root b parent pb.
        rootMap cache root = Some b \<longrightarrow> GetParentRoot (heap cache b) = Some parent \<longrightarrow>
        rootMap cache parent = Some pb \<longrightarrow> Slot (heap cache pb) < Slot (heap cache b))"

text \<open>
  Modelled from the spec: the code that loads a header into a block object is missing
  here. A block is mutated as its header becomes available; of that, the cache queries
  see the parent root becoming known.
\<close>

definition loadParentRoot :: "blockRef \<Rightarrow> Root \<Rightarrow> blockCache \<Rightarrow> blockCache" where
  "loadParentRoot block parent cache =
     cache\<lparr> heap := (heap cache)(block := (heap cache block)\<lparr> parentRoot := Some parent \<rparr>) \<rparr>"

text \<open>A chain of three blocks: root 3 at slot 7, its parent 2 at slot 6, its parent 1 at slot 5.\<close>

definition chainCache :: blockCache where
  "chainCache =
     loadParentRoot 2 2 (loadParentRoot 1 1 (insertAll [(1, 5), (2, 6), (3, 7)] newBlockCache))"

text \<open>Two blocks whose slots contradict their parent link: root 1 at slot 5 names root 2, at slot 6, as its parent.\<close>

definition invertedCache :: blockCache where
  "invertedCache = loadParentRoot 0 2 (insertAll [(1, 5), (2, 6)] newBlockCache)"

subsection \<open>Cache invariant\<close>

text \<open>
  What \<^verbatim>\<open>createOrGetBlock\<close> and \<^verbatim>\<open>removeBlock\<close> keep true of the two indexes: a root
  is mapped to an allocated object that carries this root, and a slot bucket lists, without
  repetition, allocated objects that carry this slot.
\<close>

definition cache_inv :: "blockCache \<Rightarrow> bool" where
  "cache_inv cache \<longleftrightarrow>
     (\<forall>root p. rootMap cache root = Some p \<longrightarrow> p < nextRef cache \<and> Root (heap cache p) = root)
   \<and> (\<forall>slot bs. slotMap cache slot = Some bs \<longrightarrow>
         distinct bs \<and> (\<forall>p\<in>set bs. p < nextRef cache \<and> Slot (heap cache p) = slot))"

text \<open>A small cache: two blocks at slot 5 and one at slot 6.\<close>

definition demoCache :: blockCache where
  "demoCache = insertAll [(1, 5), (2, 5), (3, 6)] newBlockCache"

section \<open>Deposit indexer (package execution)\<close>

subsection \<open>Bytes, hashes and addresses\<close>

text \<open>
  \<^verbatim>\<open>[]byte\<close> is a list of bytes. \<^verbatim>\<open>common.Hash\<close> (\<^verbatim>\<open>[32]byte\<close>) and
  \<^verbatim>\<open>common.Address\<close> (\<^verbatim>\<open>[20]byte\<close>) are words of 256 and 160 bits; a fixed-size array
  and the word correspond byte by byte, lowest byte first. \<open>hashBytes h\<close> is the slice
  \<^verbatim>\<open>h[:]\<close>. \<open>bytesToHash b\<close> is Go's conversion \<^verbatim>\<open>common.Hash(b)\<close> of a slice to an array:
  it takes the first 32 bytes and panics (\<open>None\<close>) on a shorter slice.
  \<^verbatim>\<open>binary.LittleEndian.Uint64(b)\<close> reads the first 8 bytes and panics on a shorter slice.
\<close>

type_synonym bytes = "8 word list"
type_synonym Hash = "256 word"
type_synonym Address = "160 word"

fun leBytes :: "nat \<Rightarrow> nat \<Rightarrow> bytes" where
  "leBytes 0 v = []"
| "leBytes (Suc n) v = of_nat (v mod 256) # leBytes n (v div 256)"

fun leValue :: "bytes \<Rightarrow> nat" where
  "leValue [] = 0"
| "leValue (b # bs) = unat b + 256 * leValue bs"

definition hashBytes :: "Hash \<Rightarrow> bytes" where
  "hashBytes h = leBytes 32 (unat h)"

definition bytesToHash :: "bytes \<Rightarrow> Hash option" where
  "bytesToHash b = (if length b < 32 then None else Some (of_nat (leValue (take 32 b))))"

definition addressBytes :: "Address \<Rightarrow> bytes" where
  "addressBytes a = leBytes 20 (unat a)"

definition LittleEndianUint64 :: "bytes \<Rightarrow> u64 option" where
  "LittleEndianUint64 b = (if length b < 8 then None else Some (of_nat (leValue (take 8 b))))"

subsection \<open>Data model\<close>

text \<open>
  \<^verbatim>\<open>dbtypes.DepositIndexerState\<close> and \<^verbatim>\<open>dbtypes.DepositTx\<close> are declared outside the
  files at hand; their fields are the ones the indexer reads and writes.
\<close>

record DepositIndexerState =
  FinalBlock :: u64
  HeadBlock :: u64

record DepositTx =
  Index :: u64
  BlockNumber :: u64
  BlockTime :: u64
  BlockRoot :: bytes
  PublicKey :: bytes
  WithdrawalCredentials :: bytes
  Amount :: u64
  Signature :: bytes
  ValidSignature :: bool
  Orphaned :: bool
  ForkId :: u64
  TxHash :: bytes
  TxSender :: bytes
  TxTarget :: bytes

text \<open>What the indexer reads of go-ethereum's \<^verbatim>\<open>types.Log\<close>, \<^verbatim>\<open>types.Transaction\<close>
  and \<^verbatim>\<open>types.Header\<close>, and the five byte strings of an unpacked \<^verbatim>\<open>DepositEvent\<close>
  (\<^verbatim>\<open>event[0]\<close> to \<^verbatim>\<open>event[4]\<close>).\<close>

record Log =
  Topics :: "Hash list"
  Data :: bytes
  TxHash_log :: Hash
  BlockNumber_log :: u64
  BlockHash_log :: Hash

record Transaction =
  To :: "Address option"
  txBody :: nat

record Header =
  Time :: u64

record DepositEvent =
  event_pubkey :: bytes
  event_withdrawal_credentials :: bytes
  event_amount :: bytes
  event_signature :: bytes
  event_index :: bytes

text \<open>\<^verbatim>\<open>ethereum.FilterQuery\<close>: the block bounds are big integers.\<close>

record FilterQuery =
  FromBlock :: nat
  ToBlock :: nat
  Addresses :: "Address list"

type_synonym Client = nat
type_synonym ForkKey = u64

record forkWithClients =
  forkId_fork :: ForkKey
  canonical :: bool
  clients :: "Client list"

datatype error =
    NoReadyClient
  | FetchLogsFailed
  | DecodeEventFailed
  | LoadTxFailed
  | LoadHeaderFailed
  | DecodeSenderFailed
  | InsertDepositTxsFailed
  | UpdateDepositStateFailed
  | CommitFailed
  | PersistDepositTxsFailed error
  | PersistDepositStateFailed error
  | FinalizedBlockNotInCache
  | FinalizedBlockIndexMissing
  | FinalizedBelowIndexState u64 u64
  | HeadBlockNotFound
  | HeadBlockIndexNotFound
  | Panic

text \<open>
  What the indexer does to the outside world, in order: the network calls with the
  context they run under and the client they go to, the creation and cancellation of
  contexts, the pauses. A context is named by the position of its creation in the trace.
\<close>

datatype Event =
    EvContextCreated nat
  | EvContextCanceled nat
  | EvFilterLogs nat Client FilterQuery
  | EvTransactionByHash nat Client Hash
  | EvHeaderByNumber nat Client u64
  | EvSleep

text \<open>The database: the rows of deposit transactions and the stored checkpoint
  (explorer state \<^verbatim>\<open>indexer.depositstate\<close>).\<close>

record DB =
  deposit_txs :: "DepositTx list"
  explorer_state :: "DepositIndexerState option"

type_synonym blsPubkey = nat
type_synonym blsSignature = nat

text \<open>
  The collaborators the indexer consumes, none of them in the files at hand: the chain
  state and the beacon indexer, the execution clients, the ABI decoder, the transaction
  signer, the SSZ/BLS library, and the points at which the database may fail. Each is a
  parameter; nothing is assumed about what they return.
\<close>

record Env =
  GetJustifiedCheckpoint :: "u64 \<times> Root"
  GetBlockByRoot :: "Root \<Rightarrow> Block option"
  GetCanonicalHead :: "ForkKey \<Rightarrow> Block option"
  GetBlocksByExecutionBlockHash :: "Hash \<Rightarrow> Block list"
  getFinalizedClients :: "Client list"
  getForksWithClients :: "forkWithClients list"
  FilterLogs :: "Client \<Rightarrow> FilterQuery \<Rightarrow> Log list option"
  TransactionByHash :: "Client \<Rightarrow> Hash \<Rightarrow> Transaction option"
  GetHeaderByNumber :: "Client \<Rightarrow> u64 \<Rightarrow> Header option"
  Unpack :: "bytes \<Rightarrow> DepositEvent option"
  Sender :: "Transaction \<Rightarrow> Address option"
  depositContract :: Address
  depositEventTopic :: bytes
  GenesisForkVersion :: "32 word"
  ComputeDomain :: "32 word \<Rightarrow> 32 word \<Rightarrow> Root \<Rightarrow> 256 word"
  HashTreeRoot :: "bytes \<Rightarrow> bytes \<Rightarrow> u64 \<Rightarrow> Root"
  ComputeSigningRoot :: "Root \<Rightarrow> 256 word \<Rightarrow> Root"
  Pubkey :: "bytes \<Rightarrow> blsPubkey option"
  SignatureOf :: "bytes \<Rightarrow> blsSignature option"
  Verify :: "blsPubkey \<Rightarrow> bytes \<Rightarrow> blsSignature \<Rightarrow> bool"
  InsertDepositTxsFails :: "DB \<Rightarrow> DepositTx list \<Rightarrow> bool"
  SetExplorerStateFails :: "DB \<Rightarrow> DepositIndexerState \<Rightarrow> bool"
  CommitFails :: "DB \<Rightarrow> bool"

text \<open>
  The indexer struct: \<^verbatim>\<open>state\<close> is nil until loaded, \<^verbatim>\<open>batchSize\<close> is a Go \<^verbatim>\<open>int\<close>,
  \<^verbatim>\<open>depositSigDomain\<close> a \<^verbatim>\<open>BLSDomain\<close> (\<^verbatim>\<open>[32]byte\<close>), \<^verbatim>\<open>unfinalizedDeposits\<close> a map of
  maps. \<open>db\<close> is the database behind package \<^verbatim>\<open>db\<close> and \<open>trace\<close> the effects so far;
  both are threaded with the struct.
\<close>

record DepositIndexer =
  state :: "DepositIndexerState option"
  batchSize :: "64 word"
  depositSigDomain :: "256 word"
  unfinalizedDeposits :: "u64 \<rightharpoonup> (Hash \<rightharpoonup> bool)"
  db :: DB
  trace :: "Event list"

subsection \<open>Operations\<close>



definition emit :: "Event \<Rightarrow> DepositIndexer \<Rightarrow> DepositIndexer" where
  "emit ev ds = ds\<lparr> trace := trace ds @ [ev] \<rparr>"

text \<open>
  Modelled from the spec: \<^verbatim>\<open>db.GetExplorerState\<close> is missing here. It reads the stored
  checkpoint into the given struct and leaves the struct at its zero value when nothing
  is stored.
\<close>

definition loadState :: "DepositIndexer \<Rightarrow> DepositIndexer" where
  "loadState ds =
     ds\<lparr> state := Some (case explorer_state (db ds) of
                          None \<Rightarrow> \<lparr> FinalBlock = 0, HeadBlock = 0 \<rparr>
                        | Some syncState \<Rightarrow> syncState) \<rparr>"

definition loadFilteredLogs ::
  "Env \<Rightarrow> nat \<Rightarrow> Client \<Rightarrow> FilterQuery \<Rightarrow> DepositIndexer \<Rightarrow> Log list option \<times> DepositIndexer" where
  "loadFilteredLogs env ctx client query ds =
     (FilterLogs env client query, emit (EvFilterLogs ctx client query) ds)"

definition loadTransactionByHash ::
  "Env \<Rightarrow> nat \<Rightarrow> Client \<Rightarrow> Hash \<Rightarrow> DepositIndexer \<Rightarrow> Transaction option \<times> DepositIndexer" where
  "loadTransactionByHash env ctx client hash ds =
     (TransactionByHash env client hash, emit (EvTransactionByHash ctx client hash) ds)"

definition loadHeaderByNumber ::
  "Env \<Rightarrow> nat \<Rightarrow> Client \<Rightarrow> u64 \<Rightarrow> DepositIndexer \<Rightarrow> Header option \<times> DepositIndexer" where
  "loadHeaderByNumber env ctx client number ds =
     (GetHeaderByNumber env client number, emit (EvHeaderByNumber ctx client number) ds)"

text \<open>
  \<^verbatim>\<open>checkDepositValidity\<close>. The conversions of the three byte slices to the arrays
  \<^verbatim>\<open>BLSPubkey\<close> (48 bytes), \<^verbatim>\<open>tree.Root\<close> (32) and \<^verbatim>\<open>BLSSignature\<close> (96) take a prefix of
  the slice and panic on a shorter one. \<open>HashTreeRoot\<close> is the hash-tree root of the
  deposit message, \<open>ComputeSigningRoot\<close> the signing root of that root under a domain;
  the domain passed is the struct's \<^verbatim>\<open>depositSigDomain\<close>. \<^verbatim>\<open>Verify\<close> gets the signing root
  as the slice \<^verbatim>\<open>signingRoot[:]\<close>.
\<close>

definition checkDepositValidity :: "Env \<Rightarrow> DepositIndexer \<Rightarrow> DepositTx \<Rightarrow> error + DepositTx" where
  "checkDepositValidity env ds depositTx =
     (if length (PublicKey depositTx) < 48 then Inl Panic
      else if length (WithdrawalCredentials depositTx) < 32 then Inl Panic
      else
        let depositMsg_Pubkey = take 48 (PublicKey depositTx);
            depositRoot = HashTreeRoot env depositMsg_Pubkey
                            (take 32 (WithdrawalCredentials depositTx)) (Amount depositTx);
            signingRoot = ComputeSigningRoot env depositRoot (depositSigDomain ds);
            pubkey = Pubkey env depositMsg_Pubkey
        in if length (Signature depositTx) < 96 then Inl Panic
           else
             let sig = SignatureOf env (take 96 (Signature depositTx))
             in (case pubkey of
                   None \<Rightarrow> Inr depositTx
                 | Some pk \<Rightarrow>
                     (case sig of
                        None \<Rightarrow> Inr depositTx
                      | Some s \<Rightarrow>
                          if Verify env pk (hashBytes signingRoot) s
                          then Inr (depositTx\<lparr> ValidSignature := True \<rparr>)
                          else Inr depositTx)))"

text \<open>
  The transaction and header of the log at hand are loaded once per run of logs with the
  same transaction hash: \<open>loaded\<close> holds \<^verbatim>\<open>txHash\<close>, \<^verbatim>\<open>txDetails\<close> and \<^verbatim>\<open>txBlockHeader\<close>,
  \<open>None\<close> while \<^verbatim>\<open>txHash\<close> is nil. (The recent pass assigns \<^verbatim>\<open>txHash\<close> before the two
  loads and the finalized pass after them; a failed load returns from the pass, so the
  order is not observable.)
\<close>

type_synonym loaded = "(bytes \<times> Transaction \<times> Header) option"

definition resolveTx ::
  "Env \<Rightarrow> nat \<Rightarrow> Client \<Rightarrow> Log \<Rightarrow> loaded \<Rightarrow> DepositIndexer
     \<Rightarrow> (error + (bytes \<times> Transaction \<times> Header)) \<times> DepositIndexer" where
  "resolveTx env ctx client log loaded ds =
     (let reload = (case loaded of None \<Rightarrow> True
                    | Some (txHash, _, _) \<Rightarrow> txHash \<noteq> hashBytes (TxHash_log log))
      in if reload then
           (case loadTransactionByHash env ctx client (TxHash_log log) ds of
              (None, ds1) \<Rightarrow> (Inl LoadTxFailed, ds1)
            | (Some txDetails, ds1) \<Rightarrow>
                (case loadHeaderByNumber env ctx client (BlockNumber_log log) ds1 of
                   (None, ds2) \<Rightarrow> (Inl LoadHeaderFailed, ds2)
                 | (Some txBlockHeader, ds2) \<Rightarrow>
                     (Inr (hashBytes (TxHash_log log), txDetails, txBlockHeader), ds2)))
         else (case loaded of
                 Some l \<Rightarrow> (Inr l, ds)
               | None \<Rightarrow> (Inl Panic, ds)))"

text \<open>
  The part both passes share once a log is to become a row: recover the sender, read
  \<^verbatim>\<open>*txDetails.To()\<close> (a nil dereference for a contract creation), decode the amount,
  fill the struct and validate it. \<open>index\<close> is the decoded deposit index, \<open>None\<close> when
  \<^verbatim>\<open>event[4]\<close> is too short to decode (the finalized pass decodes it only here, inside the
  struct literal; the recent pass has decoded it before). \<open>orphaned\<close> and \<open>fork\<close> are what
  the recent pass sets and the finalized pass leaves at the zero value.
\<close>

definition buildDepositTx ::
  "Env \<Rightarrow> DepositIndexer \<Rightarrow> Log \<Rightarrow> DepositEvent \<Rightarrow> u64 option \<Rightarrow> Transaction \<Rightarrow> Header
     \<Rightarrow> bool \<Rightarrow> u64 \<Rightarrow> error + DepositTx" where
  "buildDepositTx env ds log event index txDetails txBlockHeader orphaned fork =
     (case Sender env txDetails of
        None \<Rightarrow> Inl DecodeSenderFailed
      | Some txFrom \<Rightarrow>
          (case To txDetails of
             None \<Rightarrow> Inl Panic
           | Some txTo \<Rightarrow>
               (case index of
                  None \<Rightarrow> Inl Panic
                | Some depositIndex \<Rightarrow>
               (case LittleEndianUint64 (event_amount event) of
                  None \<Rightarrow> Inl Panic
                | Some amount \<Rightarrow>
                    checkDepositValidity env ds
                      \<lparr> Index = depositIndex,
                        BlockNumber = BlockNumber_log log,
                        BlockTime = Time txBlockHeader,
                        BlockRoot = hashBytes (BlockHash_log log),
                        PublicKey = event_pubkey event,
                        WithdrawalCredentials = event_withdrawal_credentials event,
                        Amount = amount,
                        Signature = event_signature event,
                        ValidSignature = False,
                        Orphaned = orphaned,
                        ForkId = fork,
                        TxHash = hashBytes (TxHash_log log),
                        TxSender = addressBytes txFrom,
                        TxTarget = addressBytes txTo \<rparr>))))"

text \<open>One turn of the log loop of the finalized pass; \<open>None\<close> in the result is
  \<^verbatim>\<open>continue\<close>. \<^verbatim>\<open>log.Topics[0]\<close> is out of range for a log without topics.\<close>

definition finalizedLog ::
  "Env \<Rightarrow> nat \<Rightarrow> Client \<Rightarrow> Log \<Rightarrow> loaded \<Rightarrow> DepositIndexer
     \<Rightarrow> (error + (loaded \<times> DepositTx option)) \<times> DepositIndexer" where
  "finalizedLog env ctx client log loaded ds =
     (case Topics log of
        [] \<Rightarrow> (Inl Panic, ds)
      | topic0 # _ \<Rightarrow>
          if hashBytes topic0 \<noteq> depositEventTopic env then (Inr (loaded, None), ds)
          else
            (case Unpack env (Data log) of
               None \<Rightarrow> (Inl DecodeEventFailed, ds)
             | Some event \<Rightarrow>
                 (case resolveTx env ctx client log loaded ds of
                    (Inl e, ds1) \<Rightarrow> (Inl e, ds1)
                  | (Inr (txHash, txDetails, txBlockHeader), ds1) \<Rightarrow>
                      (case buildDepositTx env ds1 log event
                              (LittleEndianUint64 (event_index event)) txDetails
                              txBlockHeader False 0 of
                         Inl e \<Rightarrow> (Inl e, ds1)
                       | Inr depositTx \<Rightarrow>
                           (Inr (Some (txHash, txDetails, txBlockHeader), Some depositTx),
                            ds1)))))"

fun finalizedLogs ::
  "Env \<Rightarrow> nat \<Rightarrow> Client \<Rightarrow> Log list \<Rightarrow> loaded \<Rightarrow> DepositTx list \<Rightarrow> DepositIndexer
     \<Rightarrow> (error + DepositTx list) \<times> DepositIndexer" where
  "finalizedLogs env ctx client [] loaded depositTxs ds = (Inr depositTxs, ds)"
| "finalizedLogs env ctx client (log # logs) loaded depositTxs ds =
     (case finalizedLog env ctx client log loaded ds of
        (Inl e, ds1) \<Rightarrow> (Inl e, ds1)
      | (Inr (loaded1, None), ds1) \<Rightarrow> finalizedLogs env ctx client logs loaded1 depositTxs ds1
      | (Inr (loaded1, Some depositTx), ds1) \<Rightarrow>
          finalizedLogs env ctx client logs loaded1 (depositTxs @ [depositTx]) ds1)"

text \<open>
  Modelled from the spec: \<^verbatim>\<open>db.RunDBTransaction\<close>, \<^verbatim>\<open>db.InsertDepositTxs\<close> and
  \<^verbatim>\<open>db.SetExplorerState\<close> are missing here. A transaction is an atomic
  commit-or-rollback: the handler works on the transaction's view \<open>tx\<close> of the database;
  if it returns an error, or the commit fails, the database stays as it was before the
  transaction, otherwise it becomes the handler's view. What the handler does to the
  memory of the program is not undone. The batch insert adds the rows; the state setter
  stores the checkpoint.
\<close>

definition RunDBTransaction ::
  "Env \<Rightarrow> (DB \<Rightarrow> DepositIndexer \<Rightarrow> error option \<times> DB \<times> DepositIndexer) \<Rightarrow> DepositIndexer
     \<Rightarrow> error option \<times> DepositIndexer" where
  "RunDBTransaction env handler ds =
     (case handler (db ds) ds of
        (Some e, tx, ds1) \<Rightarrow> (Some e, ds1\<lparr> db := db ds \<rparr>)
      | (None, tx, ds1) \<Rightarrow>
          if CommitFails env tx then (Some CommitFailed, ds1\<lparr> db := db ds \<rparr>)
          else (None, ds1\<lparr> db := tx \<rparr>))"

definition InsertDepositTxs :: "Env \<Rightarrow> DepositTx list \<Rightarrow> DB \<Rightarrow> error + DB" where
  "InsertDepositTxs env deposits tx =
     (if InsertDepositTxsFails env tx deposits then Inl InsertDepositTxsFailed
      else Inr (tx\<lparr> deposit_txs := deposit_txs tx @ deposits \<rparr>))"

definition SetExplorerState :: "Env \<Rightarrow> DepositIndexerState \<Rightarrow> DB \<Rightarrow> error + DB" where
  "SetExplorerState env st tx =
     (if SetExplorerStateFails env tx st then Inl UpdateDepositStateFailed
      else Inr (tx\<lparr> explorer_state := Some st \<rparr>))"

definition persistFinalizedDepositTxs ::
  "Env \<Rightarrow> u64 \<Rightarrow> DepositTx list \<Rightarrow> DepositIndexer \<Rightarrow> error option \<times> DepositIndexer" where
  "persistFinalizedDepositTxs env toBlockNumber deposits =
     RunDBTransaction env (\<lambda>tx ds.
       case (if length deposits > 0 then InsertDepositTxs env deposits tx else Inr tx) of
         Inl e \<Rightarrow> (Some e, tx, ds)
       | Inr tx1 \<Rightarrow>
           (case state ds of
              None \<Rightarrow> (Some Panic, tx1, ds)
            | Some st \<Rightarrow>
                let st1 = st\<lparr> FinalBlock := toBlockNumber \<rparr>;
                    st2 = (if toBlockNumber > HeadBlock st1
                           then st1\<lparr> HeadBlock := toBlockNumber \<rparr> else st1);
                    ds1 = ds\<lparr> state := Some st2 \<rparr>
                in (case SetExplorerState env st2 tx1 of
                      Inl e \<Rightarrow> (Some e, tx1, ds1)
                    | Inr tx2 \<Rightarrow> (None, tx2, ds1))))"

definition persistRecentDepositTxs ::
  "Env \<Rightarrow> DepositTx list \<Rightarrow> DepositIndexer \<Rightarrow> error option \<times> DepositIndexer" where
  "persistRecentDepositTxs env deposits =
     RunDBTransaction env (\<lambda>tx ds.
       case InsertDepositTxs env deposits tx of
         Inl e \<Rightarrow> (Some e, tx, ds)
       | Inr tx1 \<Rightarrow> (None, tx1, ds))"

text \<open>
  The loop \<^verbatim>\<open>for depositIdx := 0; depositIdx < depositCount; depositIdx += 500\<close> over the
  slices \<^verbatim>\<open>depositTxs[depositIdx:endIdx]\<close>, for either persist function.
\<close>

function persistChunks ::
  "(DepositTx list \<Rightarrow> DepositIndexer \<Rightarrow> error option \<times> DepositIndexer) \<Rightarrow> DepositTx list
     \<Rightarrow> DepositIndexer \<Rightarrow> error option \<times> DepositIndexer" where
  "persistChunks persist depositTxs ds =
     (if depositTxs = [] then (None, ds)
      else (case persist (take 500 depositTxs) ds of
              (Some e, ds1) \<Rightarrow> (Some (PersistDepositTxsFailed e), ds1)
            | (None, ds1) \<Rightarrow> persistChunks persist (drop 500 depositTxs) ds1))"
  by pat_completeness auto
termination
  by (relation "measure (\<lambda>(persist, depositTxs, ds). length depositTxs)") auto

text \<open>After a finalized batch: every index just finalized is dropped from the dedup map.\<close>

fun purgeFinalized :: "DepositTx list \<Rightarrow> DepositIndexer \<Rightarrow> DepositIndexer" where
  "purgeFinalized [] ds = ds"
| "purgeFinalized (depositTx # rest) ds =
     purgeFinalized rest
       (if unfinalizedDeposits ds (Index depositTx) \<noteq> None
        then ds\<lparr> unfinalizedDeposits := (unfinalizedDeposits ds)(Index depositTx := None) \<rparr>
        else ds)"

text \<open>The body of the loop of \<^verbatim>\<open>processFinalizedBlocks\<close>: one batch of blocks.\<close>

definition finalizedBatch ::
  "Env \<Rightarrow> nat \<Rightarrow> Client \<Rightarrow> u64 \<Rightarrow> DepositIndexerState \<Rightarrow> DepositIndexer
     \<Rightarrow> error option \<times> DepositIndexer" where
  "finalizedBatch env ctx client finalizedBlockNumber st ds =
     (let toBlock0 = FinalBlock st + batchSize ds;
          toBlock = (if toBlock0 > finalizedBlockNumber then finalizedBlockNumber else toBlock0);
          query = \<lparr> FromBlock = unat (FinalBlock st + 1), ToBlock = unat toBlock,
                    Addresses = [depositContract env] \<rparr>
      in case loadFilteredLogs env ctx client query ds of
           (None, ds1) \<Rightarrow> (Some FetchLogsFailed, ds1)
         | (Some logs, ds1) \<Rightarrow>
             (case finalizedLogs env ctx client logs None [] ds1 of
                (Inl e, ds2) \<Rightarrow> (Some e, ds2)
              | (Inr depositTxs, ds2) \<Rightarrow>
                  if length depositTxs > 0 then
                    (case persistChunks (persistFinalizedDepositTxs env toBlock) depositTxs ds2 of
                       (Some e, ds3) \<Rightarrow> (Some e, ds3)
                     | (None, ds3) \<Rightarrow> (None, emit EvSleep (purgeFinalized depositTxs ds3)))
                  else
                    (case persistFinalizedDepositTxs env toBlock [] ds2 of
                       (Some e, ds3) \<Rightarrow> (Some (PersistDepositStateFailed e), ds3)
                     | (None, ds3) \<Rightarrow> (None, ds3))))"

text \<open>
  The loop \<^verbatim>\<open>for ds.state.FinalBlock < finalizedBlockNumber\<close>. Nothing in the code bounds the
  number of turns (the batch size is added in wrapping \<^verbatim>\<open>uint64\<close> arithmetic), so a loop
  that does not return is the value \<open>None\<close>.
\<close>

partial_function (option) finalizedLoop ::
  "Env \<Rightarrow> nat \<Rightarrow> Client \<Rightarrow> u64 \<Rightarrow> DepositIndexer \<Rightarrow> (error option \<times> DepositIndexer) option" where
  "finalizedLoop env ctx client finalizedBlockNumber ds =
     (case state ds of
        None \<Rightarrow> Some (Some Panic, ds)
      | Some st \<Rightarrow>
          if FinalBlock st < finalizedBlockNumber then
            (case finalizedBatch env ctx client finalizedBlockNumber st ds of
               (Some e, ds1) \<Rightarrow> Some (Some e, ds1)
             | (None, ds1) \<Rightarrow> finalizedLoop env ctx client finalizedBlockNumber ds1)
          else Some (None, ds))"

definition processFinalizedBlocks ::
  "Env \<Rightarrow> u64 \<Rightarrow> DepositIndexer \<Rightarrow> (error option \<times> DepositIndexer) option" where
  "processFinalizedBlocks env finalizedBlockNumber ds =
     (case getFinalizedClients env of
        [] \<Rightarrow> Some (Some NoReadyClient, ds)
      | client # _ \<Rightarrow>
          let ctx = length (trace ds);
              ds1 = emit (EvContextCreated ctx) ds
          in map_option (\<lambda>(err, ds2). (err, emit (EvContextCanceled ctx) ds2))
               (finalizedLoop env ctx client finalizedBlockNumber ds1))"

text \<open>\<^verbatim>\<open>ds.unfinalizedDeposits[depositIndex] != nil && ds.unfinalizedDeposits[depositIndex][hash]\<close>:
  a missing key of the inner map reads as false.\<close>

definition isUnfinalizedDeposit :: "DepositIndexer \<Rightarrow> u64 \<Rightarrow> Hash \<Rightarrow> bool" where
  "isUnfinalizedDeposit ds depositIndex blockHash =
     (case unfinalizedDeposits ds depositIndex of
        None \<Rightarrow> False
      | Some hashes \<Rightarrow> (case hashes blockHash of None \<Rightarrow> False | Some seen \<Rightarrow> seen))"

text \<open>One turn of the log loop of the recent pass.\<close>

definition recentLog ::
  "Env \<Rightarrow> nat \<Rightarrow> Client \<Rightarrow> forkWithClients \<Rightarrow> Log \<Rightarrow> loaded \<Rightarrow> DepositIndexer
     \<Rightarrow> (error + (loaded \<times> DepositTx option)) \<times> DepositIndexer" where
  "recentLog env ctx client headFork log loaded ds =
     (case Topics log of
        [] \<Rightarrow> (Inl Panic, ds)
      | topic0 # _ \<Rightarrow>
          if hashBytes topic0 \<noteq> depositEventTopic env then (Inr (loaded, None), ds)
          else
            (case Unpack env (Data log) of
               None \<Rightarrow> (Inl DecodeEventFailed, ds)
             | Some event \<Rightarrow>
                 (case LittleEndianUint64 (event_index event) of
                    None \<Rightarrow> (Inl Panic, ds)
                  | Some depositIndex \<Rightarrow>
                      if isUnfinalizedDeposit ds depositIndex (BlockHash_log log)
                      then (Inr (loaded, None), ds)
                      else
                        (case resolveTx env ctx client log loaded ds of
                           (Inl e, ds1) \<Rightarrow> (Inl e, ds1)
                         | (Inr (txHash, txDetails, txBlockHeader), ds1) \<Rightarrow>
                             let depositForkId =
                                   (case GetBlocksByExecutionBlockHash env (BlockHash_log log) of
                                      [] \<Rightarrow> forkId_fork headFork
                                    | beaconBlock # _ \<Rightarrow> GetForkId beaconBlock)
                             in (case buildDepositTx env ds1 log event (Some depositIndex) txDetails
                                        txBlockHeader True depositForkId of
                                   Inl e \<Rightarrow> (Inl e, ds1)
                                 | Inr depositTx \<Rightarrow>
                                     (Inr (Some (txHash, txDetails, txBlockHeader), Some depositTx),
                                      ds1))))))"

fun recentLogs ::
  "Env \<Rightarrow> nat \<Rightarrow> Client \<Rightarrow> forkWithClients \<Rightarrow> Log list \<Rightarrow> loaded \<Rightarrow> DepositTx list
     \<Rightarrow> DepositIndexer \<Rightarrow> (error + DepositTx list) \<times> DepositIndexer" where
  "recentLogs env ctx client headFork [] loaded depositTxs ds = (Inr depositTxs, ds)"
| "recentLogs env ctx client headFork (log # logs) loaded depositTxs ds =
     (case recentLog env ctx client headFork log loaded ds of
        (Inl e, ds1) \<Rightarrow> (Inl e, ds1)
      | (Inr (loaded1, None), ds1) \<Rightarrow>
          recentLogs env ctx client headFork logs loaded1 depositTxs ds1
      | (Inr (loaded1, Some depositTx), ds1) \<Rightarrow>
          recentLogs env ctx client headFork logs loaded1 (depositTxs @ [depositTx]) ds1)"

text \<open>After the batch is persisted: every pair (index, block hash) goes into the dedup map.\<close>

fun recordUnfinalized :: "DepositTx list \<Rightarrow> DepositIndexer \<Rightarrow> error option \<times> DepositIndexer" where
  "recordUnfinalized [] ds = (None, ds)"
| "recordUnfinalized (depositTx # rest) ds =
     (let hashes = (case unfinalizedDeposits ds (Index depositTx) of
                      None \<Rightarrow> Map.empty
                    | Some hs \<Rightarrow> hs);
          ds1 = ds\<lparr> unfinalizedDeposits := (unfinalizedDeposits ds)(Index depositTx \<mapsto> hashes) \<rparr>
      in case bytesToHash (BlockRoot depositTx) of
           None \<Rightarrow> (Some Panic, ds1)
         | Some blockHash \<Rightarrow>
             recordUnfinalized rest
               (ds1\<lparr> unfinalizedDeposits :=
                       (unfinalizedDeposits ds1)(Index depositTx \<mapsto> hashes(blockHash \<mapsto> True)) \<rparr>))"

text \<open>The log query of the recent pass, its bounds computed in \<^verbatim>\<open>uint64\<close>.\<close>

definition recentQuery :: "Env \<Rightarrow> DepositIndexerState \<Rightarrow> u64 \<Rightarrow> FilterQuery" where
  "recentQuery env st elHeadBlockNumber =
     \<lparr> FromBlock = unat (FinalBlock st + 1), ToBlock = unat (elHeadBlockNumber - 1),
       Addresses = [depositContract env] \<rparr>"

text \<open>
  The second half of a turn of the loop \<^verbatim>\<open>for retryCount := 0; retryCount < 3; retryCount++\<close>,
  from the fetched logs on: build the rows, persist them in slices of 500, record them
  in the dedup map, pause.
\<close>

definition recentBatch ::
  "Env \<Rightarrow> nat \<Rightarrow> Client \<Rightarrow> forkWithClients \<Rightarrow> Log list \<Rightarrow> DepositIndexer
     \<Rightarrow> error option \<times> DepositIndexer" where
  "recentBatch env ctx client headFork logs ds =
     (case recentLogs env ctx client headFork logs None [] ds of
        (Inl e, ds1) \<Rightarrow> (Some e, ds1)
      | (Inr depositTxs, ds1) \<Rightarrow>
          if length depositTxs > 0 then
            (case persistChunks (persistRecentDepositTxs env) depositTxs ds1 of
               (Some e, ds2) \<Rightarrow> (Some e, ds2)
             | (None, ds2) \<Rightarrow>
                 (case recordUnfinalized depositTxs ds2 of
                    (Some e, ds3) \<Rightarrow> (Some e, ds3)
                  | (None, ds3) \<Rightarrow> (None, emit EvSleep ds3)))
          else (None, ds1))"

text \<open>
  A turn of the loop. \<open>ctxCancel\<close> is the cancel function of the previous turn's context,
  if any. Every \<^verbatim>\<open>return\<close> of the body leaves the function; falling off its end goes on
  to the next turn. \<^verbatim>\<open>retryCount % len(headFork.clients)\<close> panics for a fork without
  clients.
\<close>

definition recentAttempt ::
  "Env \<Rightarrow> forkWithClients \<Rightarrow> u64 \<Rightarrow> nat \<Rightarrow> nat option \<times> DepositIndexer
     \<Rightarrow> error option \<times> nat option \<times> DepositIndexer" where
  "recentAttempt env headFork elHeadBlockNumber retryCount s =
     (case s of (ctxCancel, ds) \<Rightarrow>
        if clients headFork = [] then (Some Panic, ctxCancel, ds)
        else
          let client = clients headFork ! (retryCount mod length (clients headFork));
              ds1 = (case ctxCancel of None \<Rightarrow> ds | Some c \<Rightarrow> emit (EvContextCanceled c) ds);
              ctx = length (trace ds1);
              ds2 = emit (EvContextCreated ctx) ds1
          in (case state ds2 of
                None \<Rightarrow> (Some Panic, Some ctx, ds2)
              | Some st \<Rightarrow>
                  (case loadFilteredLogs env ctx client (recentQuery env st elHeadBlockNumber) ds2 of
                     (None, ds3) \<Rightarrow> (Some FetchLogsFailed, Some ctx, ds3)
                   | (Some logs, ds3) \<Rightarrow>
                       (case recentBatch env ctx client headFork logs ds3 of
                          (err, ds4) \<Rightarrow> (err, Some ctx, ds4)))))"

fun recentAttempts ::
  "Env \<Rightarrow> forkWithClients \<Rightarrow> u64 \<Rightarrow> nat list \<Rightarrow> nat option \<times> DepositIndexer
     \<Rightarrow> error option \<times> nat option \<times> DepositIndexer" where
  "recentAttempts env headFork elHeadBlockNumber [] s = (None, s)"
| "recentAttempts env headFork elHeadBlockNumber (retryCount # later) s =
     (case recentAttempt env headFork elHeadBlockNumber retryCount s of
        (Some e, s1) \<Rightarrow> (Some e, s1)
      | (None, s1) \<Rightarrow> recentAttempts env headFork elHeadBlockNumber later s1)"

text \<open>
  \<^verbatim>\<open>processRecentBlocksForFork\<close>: the three turns \<^verbatim>\<open>retryCount = 0, 1, 2\<close>, then the deferred
  cancellation of the last context. \<^verbatim>\<open>resError\<close> is never assigned, so the value returned
  after the loop is nil.
\<close>

definition processRecentBlocksForFork ::
  "Env \<Rightarrow> forkWithClients \<Rightarrow> DepositIndexer \<Rightarrow> error option \<times> DepositIndexer" where
  "processRecentBlocksForFork env headFork ds =
     (case GetCanonicalHead env (forkId_fork headFork) of
        None \<Rightarrow> (Some HeadBlockNotFound, ds)
      | Some elHeadBlock \<Rightarrow>
          (case GetBlockIndex elHeadBlock of
             None \<Rightarrow> (Some HeadBlockIndexNotFound, ds)
           | Some elHeadBlockIndex \<Rightarrow>
               (case recentAttempts env headFork (ExecutionNumber elHeadBlockIndex) [0, 1, 2]
                       (None, ds) of
                  (err, ctxCancel, ds1) \<Rightarrow>
                    (err, case ctxCancel of
                            None \<Rightarrow> ds1
                          | Some c \<Rightarrow> emit (EvContextCanceled c) ds1))))"

text \<open>\<^verbatim>\<open>processRecentBlocks\<close> logs the error of a fork and goes on; only a panic gets out.\<close>

fun processRecentForks :: "Env \<Rightarrow> forkWithClients list \<Rightarrow> DepositIndexer \<Rightarrow> error option \<times> DepositIndexer" where
  "processRecentForks env [] ds = (None, ds)"
| "processRecentForks env (headFork # rest) ds =
     (case processRecentBlocksForFork env headFork ds of
        (Some Panic, ds1) \<Rightarrow> (Some Panic, ds1)
      | (_, ds1) \<Rightarrow> processRecentForks env rest ds1)"

definition processRecentBlocks :: "Env \<Rightarrow> DepositIndexer \<Rightarrow> error option \<times> DepositIndexer" where
  "processRecentBlocks env ds = processRecentForks env (getForksWithClients env) ds"

text \<open>
  \<^verbatim>\<open>runDepositIndexer\<close>, one tick of the indexer. The block looked up is the block of the
  justified checkpoint; the code calls it, and its execution block number, finalized.
\<close>

definition runDepositIndexer :: "Env \<Rightarrow> DepositIndexer \<Rightarrow> (error option \<times> DepositIndexer) option" where
  "runDepositIndexer env ds0 =
     (let ds = (if state ds0 = None then loadState ds0 else ds0)
      in case GetJustifiedCheckpoint env of
           (justifiedEpoch, justifiedRoot) \<Rightarrow>
             if justifiedEpoch > 0 then
               (case GetBlockByRoot env justifiedRoot of
                  None \<Rightarrow> Some (Some FinalizedBlockNotInCache, ds)
                | Some finalizedBlock \<Rightarrow>
                    (case GetBlockIndex finalizedBlock of
                       None \<Rightarrow> Some (Some FinalizedBlockIndexMissing, ds)
                     | Some indexVals \<Rightarrow>
                         (case state ds of
                            None \<Rightarrow> Some (Some Panic, ds)
                          | Some st \<Rightarrow>
                              let finalizedBlockNumber = ExecutionNumber indexVals
                              in if finalizedBlockNumber < FinalBlock st
                                 then Some (Some (FinalizedBelowIndexState finalizedBlockNumber
                                                    (FinalBlock st)), ds)
                                 else if finalizedBlockNumber > FinalBlock st
                                 then (case processFinalizedBlocks env finalizedBlockNumber ds of
                                         None \<Rightarrow> None
                                       | Some (Some e, ds1) \<Rightarrow> Some (Some e, ds1)
                                       | Some (None, ds1) \<Rightarrow> Some (processRecentBlocks env ds1))
                                 else Some (processRecentBlocks env ds))))
             else Some (processRecentBlocks env ds))"

subsection \<open>Concrete collaborators\<close>



text \<open>
  An environment in which nothing is there and every call fails, and variations of it
  for the examples: one ready client and empty log answers; a fork with two clients whose
  head is at execution block 0 and whose first client cannot be reached.
\<close>

definition quietEnv :: Env where
  "quietEnv =
     \<lparr> GetJustifiedCheckpoint = (0, 0), GetBlockByRoot = (\<lambda>_. None),
       GetCanonicalHead = (\<lambda>_. None), GetBlocksByExecutionBlockHash = (\<lambda>_. []),
       getFinalizedClients = [], getForksWithClients = [],
       FilterLogs = (\<lambda>_ _. None), TransactionByHash = (\<lambda>_ _. None),
       GetHeaderByNumber = (\<lambda>_ _. None), Unpack = (\<lambda>_. None), Sender = (\<lambda>_. None),
       depositContract = 0, depositEventTopic = hashBytes 0,
       GenesisForkVersion = 0, ComputeDomain = (\<lambda>_ _ _. 0), HashTreeRoot = (\<lambda>_ _ _. 0),
       ComputeSigningRoot = (\<lambda>_ _. 0), Pubkey = (\<lambda>_. None), SignatureOf = (\<lambda>_. None),
       Verify = (\<lambda>_ _ _. False),
       InsertDepositTxsFails = (\<lambda>_ _. False), SetExplorerStateFails = (\<lambda>_ _. False),
       CommitFails = (\<lambda>_. False) \<rparr>"

definition blockAt :: "u64 \<Rightarrow> Block" where
  "blockAt number =
     (newBlock 9 32)\<lparr> blockIndex := Some \<lparr> ExecutionNumber = number, ExecutionHash = 0 \<rparr> \<rparr>"

definition freshIndexer :: "u64 \<Rightarrow> DepositIndexer" where
  "freshIndexer final =
     \<lparr> state = Some \<lparr> FinalBlock = final, HeadBlock = final \<rparr>, batchSize = 1000,
       depositSigDomain = 0, unfinalizedDeposits = Map.empty,
       db = \<lparr> deposit_txs = [], explorer_state = Some \<lparr> FinalBlock = final, HeadBlock = final \<rparr> \<rparr>,
       trace = [] \<rparr>"

definition twoClientFork :: forkWithClients where
  "twoClientFork = \<lparr> forkId_fork = 0, canonical = True, clients = [0, 1] \<rparr>"

definition firstClientDownEnv :: Env where
  "firstClientDownEnv =
     quietEnv\<lparr> GetCanonicalHead := (\<lambda>_. Some (blockAt 0)),
               FilterLogs := (\<lambda>client _. if client = 0 then None else Some []) \<rparr>"

definition stateWriteFailsEnv :: Env where
  "stateWriteFailsEnv =
     quietEnv\<lparr> getFinalizedClients := [0], FilterLogs := (\<lambda>_ _. Some []),
               SetExplorerStateFails := (\<lambda>_ _. True) \<rparr>"

definition behindEnv :: Env where
  "behindEnv =
     quietEnv\<lparr> GetJustifiedCheckpoint := (3, 9),
               GetBlockByRoot := (\<lambda>root. if root = 9 then Some (blockAt 10) else None) \<rparr>"

definition headAtZeroEnv :: Env where
  "headAtZeroEnv =
     quietEnv\<lparr> GetCanonicalHead := (\<lambda>_. Some (blockAt 0)), FilterLogs := (\<lambda>_ _. Some []) \<rparr>"

text \<open>A database that accepts the first insert into the empty table and rejects any later one.\<close>

definition secondSliceFailsEnv :: Env where
  "secondSliceFailsEnv = quietEnv\<lparr> InsertDepositTxsFails := (\<lambda>tx deposits. deposit_txs tx \<noteq> []) \<rparr>"

text \<open>Valid and invalid deposits for the examples: the key of 48 ones verifies, no other
  does, and only over the signing root under the domain of genesis fork version 1.\<close>

definition goodEnv :: Env where
  "goodEnv = quietEnv\<lparr> GenesisForkVersion := 1,
                       ComputeDomain := (\<lambda>domainType version root.
                                           if domainType = 3 \<and> version = 1 \<and> root = 0
                                           then 259 else 0),
                       HashTreeRoot := (\<lambda>_ _ _. 10),
                       ComputeSigningRoot := (\<lambda>root domain. root + domain),
                       Pubkey := (\<lambda>b. if b = replicate 48 1 then Some 7 else None),
                       SignatureOf := (\<lambda>b. Some 3),
                       Verify := (\<lambda>pk root s. pk = 7 \<and> s = 3 \<and> root = hashBytes 269) \<rparr>"


definition someDeposit :: "bytes \<Rightarrow> DepositTx" where
  "someDeposit key =
     \<lparr> Index = 7, BlockNumber = 12, BlockTime = 0, BlockRoot = hashBytes 5,
       PublicKey = key, WithdrawalCredentials = replicate 32 0, Amount = 32,
       Signature = replicate 96 2, ValidSignature = False, Orphaned = False, ForkId = 0,
       TxHash = hashBytes 1, TxSender = addressBytes 0, TxTarget = addressBytes 0 \<rparr>"

section \<open>Properties of the block cache\<close>

lemma createOrGetBlock_existing:
  "rootMap cache root = Some p \<Longrightarrow> createOrGetBlock root slot cache = ((p, False), cache)"
  by (simp add: createOrGetBlock_def)

lemma createOrGetBlock_rootMap:
  "createOrGetBlock root slot cache = ((p, w), cache') \<Longrightarrow> rootMap cache' root = Some p"
  by (auto simp: createOrGetBlock_def Let_def split: option.splits if_splits)

text \<open>
  C4. \<^verbatim>\<open>createOrGetBlock\<close> is an idempotent insert: whatever a first call with root
  \<open>root\<close> returned, a second call with the same root and any slot returns the same
  reference with \<open>wasCreated = False\<close>, and the cache after it is the cache before it:
  the instance is unchanged and so is the number of tracked blocks.
\<close>

theorem createOrGetBlock_idempotent:
  assumes "createOrGetBlock root slot1 cache = ((p, created), cache1)"
  shows "createOrGetBlock root slot2 cache1 = ((p, False), cache1)
       \<and> heap (snd (createOrGetBlock root slot2 cache1)) p = heap cache1 p
       \<and> trackedBlockCount (snd (createOrGetBlock root slot2 cache1)) = trackedBlockCount cache1
       \<and> getBlocksBySlot s (snd (createOrGetBlock root slot2 cache1)) = getBlocksBySlot s cache1"
  using createOrGetBlock_existing [OF createOrGetBlock_rootMap [OF assms]] by simp

theorem createOrGetBlock_idempotent_witness:
  "fst (createOrGetBlock 1 5 newBlockCache) = (0, True)
   \<and> createOrGetBlock 1 7 (snd (createOrGetBlock 1 5 newBlockCache))
       = ((0, False), snd (createOrGetBlock 1 5 newBlockCache))
   \<and> trackedBlockCount (snd (createOrGetBlock 1 7 (snd (createOrGetBlock 1 5 newBlockCache)))) = 1"
proof -
  have f: "fst (createOrGetBlock 1 5 newBlockCache) = (0, True)"
    by (simp add: createOrGetBlock_def newBlockCache_def Let_def int64_def word_sless_alt)
  then have h: "createOrGetBlock 1 5 newBlockCache = ((0, True), snd (createOrGetBlock 1 5 newBlockCache))"
    by (simp add: prod_eq_iff)
  have n: "trackedBlockCount (snd (createOrGetBlock 1 5 newBlockCache)) = 1"
    by (simp add: createOrGetBlock_def newBlockCache_def Let_def trackedBlockCount_def
        int64_def word_sless_alt)
  have i: "createOrGetBlock 1 7 (snd (createOrGetBlock 1 5 newBlockCache))
             = ((0, False), snd (createOrGetBlock 1 5 newBlockCache))"
    using createOrGetBlock_idempotent [OF h, of 7] by blast
  show ?thesis
    unfolding i using f n by simp
qed

text \<open>
  C8. The slot bounds after inserts into a fresh cache. \<^verbatim>\<open>newBlockCache\<close> leaves
  \<^verbatim>\<open>lowestSlot\<close> at 0, so the test \<^verbatim>\<open>cache.lowestSlot < 0\<close> that would adopt the first
  slot never fires: after the single insert of a block at slot 5, \<^verbatim>\<open>highestSlot\<close> is 5
  but \<^verbatim>\<open>lowestSlot\<close> is still 0, not the minimum inserted slot.
\<close>

theorem lowestSlot_stuck_at_zero:
  "highestSlot (insertAll [(1, 5)] newBlockCache) = 5
   \<and> lowestSlot (insertAll [(1, 5)] newBlockCache) = 0"
  by (simp add: createOrGetBlock_def newBlockCache_def Let_def int64_def word_sless_alt)

lemma cache_inv_newBlockCache: "cache_inv newBlockCache"
  by (simp add: cache_inv_def newBlockCache_def)

lemma cache_inv_rootD: "cache_inv cache \<Longrightarrow> rootMap cache r = Some p \<Longrightarrow> Root (heap cache p) = r"
  by (simp add: cache_inv_def)

lemma cache_inv_root_lt: "cache_inv cache \<Longrightarrow> rootMap cache r = Some p \<Longrightarrow> p < nextRef cache"
  by (simp add: cache_inv_def)

lemma cache_inv_distinct: "cache_inv cache \<Longrightarrow> slotMap cache s = Some bs \<Longrightarrow> distinct bs"
  by (simp add: cache_inv_def)

lemma cache_inv_slot_lt:
  "cache_inv cache \<Longrightarrow> slotMap cache s = Some bs \<Longrightarrow> p \<in> set bs \<Longrightarrow> p < nextRef cache"
  by (simp add: cache_inv_def)

lemma cache_inv_slotD:
  "cache_inv cache \<Longrightarrow> slotMap cache s = Some bs \<Longrightarrow> p \<in> set bs \<Longrightarrow> Slot (heap cache p) = s"
  by (simp add: cache_inv_def)

lemma cache_inv_createOrGetBlock:
  assumes "cache_inv cache"
  shows "cache_inv (snd (createOrGetBlock root slot cache))"
proof (cases "rootMap cache root")
  case (Some p)
  then show ?thesis using assms by (simp add: createOrGetBlock_def)
next
  case None
  note inv = cache_inv_rootD [OF assms] cache_inv_root_lt [OF assms] cache_inv_distinct [OF assms]
    cache_inv_slot_lt [OF assms] cache_inv_slotD [OF assms]
  show ?thesis
    unfolding cache_inv_def
    using None
    by (auto simp: createOrGetBlock_def Let_def newBlock_def split: option.splits dest: inv simp: less_Suc_eq)
qed

lemma cache_inv_insertAll: "cache_inv cache \<Longrightarrow> cache_inv (insertAll ops cache)"
  by (induction ops arbitrary: cache) (auto simp: cache_inv_createOrGetBlock)

lemma cache_inv_removeBlock:
  assumes "cache_inv cache"
  shows "cache_inv (removeBlock block cache)"
proof -
  note inv = cache_inv_rootD [OF assms] cache_inv_root_lt [OF assms] cache_inv_distinct [OF assms]
    cache_inv_slot_lt [OF assms] cache_inv_slotD [OF assms]
  show ?thesis
    unfolding cache_inv_def
    by (auto simp: removeBlock_def Let_def split: option.splits if_splits
        dest: inv notin_set_remove1 [THEN notE, rotated] simp: less_Suc_eq)
qed

lemma bucket_cases:
  "getBlocksBySlot slot (removeBlock block cache) =
     (if slot = Slot (heap cache block)
      then remove1 block (getBlocksBySlot slot cache)
      else getBlocksBySlot slot cache)"
  apply (cases "slotMap cache (Slot (heap cache block))")
   apply (simp add: getBlocksBySlot_def removeBlock_def Let_def)
  subgoal for bs
    apply (cases bs)
     apply (simp add: getBlocksBySlot_def removeBlock_def Let_def)
    subgoal for x xs
      by (cases xs) (auto simp add: getBlocksBySlot_def removeBlock_def Let_def)
    done
  done


text \<open>
  C9. \<^verbatim>\<open>removeBlock(b)\<close> for a block \<open>b\<close> that the cache holds under its root:
  afterwards \<^verbatim>\<open>getBlockByRoot(b.Root)\<close> is nil and \<^verbatim>\<open>getBlocksBySlot(b.Slot)\<close> does not
  contain \<open>b\<close>; every other block is still returned for its root; every slot bucket
  is the bucket it was with \<open>b\<close> taken out (other entries and their order kept); and no
  block object is changed.
\<close>

theorem removeBlock_frame:
  assumes "cache_inv cache"
      and "getBlockByRoot (Root (heap cache block)) cache = Some block"
  shows "getBlockByRoot (Root (heap cache block)) (removeBlock block cache) = None
       \<and> block \<notin> set (getBlocksBySlot (Slot (heap cache block)) (removeBlock block cache))
       \<and> (\<forall>root other. other \<noteq> block \<longrightarrow> getBlockByRoot root cache = Some other
             \<longrightarrow> getBlockByRoot root (removeBlock block cache) = Some other)
       \<and> (\<forall>slot. getBlocksBySlot slot (removeBlock block cache)
                  = filter (\<lambda>other. other \<noteq> block) (getBlocksBySlot slot cache))
       \<and> heap (removeBlock block cache) = heap cache"
proof (intro conjI allI impI)
  show "getBlockByRoot (Root (heap cache block)) (removeBlock block cache) = None"
    by (simp add: getBlockByRoot_def removeBlock_def Let_def)
  have d: "distinct (getBlocksBySlot slot cache)" for slot
    using cache_inv_distinct [OF assms(1)]
    by (simp add: getBlocksBySlot_def split: option.splits)
  show "block \<notin> set (getBlocksBySlot (Slot (heap cache block)) (removeBlock block cache))"
    using d by (simp add: bucket_cases)
  show "getBlockByRoot root (removeBlock block cache) = Some other"
    if "other \<noteq> block" "getBlockByRoot root cache = Some other" for root other
    using that assms(2) by (auto simp: getBlockByRoot_def removeBlock_def Let_def)
  show "getBlocksBySlot slot (removeBlock block cache)
          = filter (\<lambda>other. other \<noteq> block) (getBlocksBySlot slot cache)" for slot
  proof (cases "slot = Slot (heap cache block)")
    case True
    then show ?thesis
      using d [of slot]
      by (simp add: bucket_cases distinct_remove1_removeAll removeAll_filter_not_eq eq_commute)
  next
    case False
    then have "block \<notin> set (getBlocksBySlot slot cache)"
      using cache_inv_slotD [OF assms(1), of slot _ block]
      by (cases "slotMap cache slot") (auto simp: getBlocksBySlot_def)
    then have "filter (\<lambda>other. other \<noteq> block) (getBlocksBySlot slot cache)
                 = getBlocksBySlot slot cache"
      by (auto simp: filter_id_conv)
    then show ?thesis
      using False by (simp add: bucket_cases)
  qed
  show "heap (removeBlock block cache) = heap cache"
    by (simp add: removeBlock_def Let_def)
qed


lemmas cache_eval = createOrGetBlock_def newBlockCache_def Let_def int64_def word_sless_alt
  newBlock_def getBlockByRoot_def getBlocksBySlot_def removeBlock_def

theorem removeBlock_frame_witness:
  "cache_inv demoCache
   \<and> getBlockByRoot (Root (heap demoCache 0)) demoCache = Some 0
   \<and> getBlockByRoot 1 (removeBlock 0 demoCache) = None
   \<and> getBlocksBySlot 5 (removeBlock 0 demoCache) = [1]
   \<and> getBlockByRoot 2 (removeBlock 0 demoCache) = Some 1
   \<and> getBlocksBySlot 6 (removeBlock 0 demoCache) = [2]"
proof -
  have i: "cache_inv demoCache"
    unfolding demoCache_def by (rule cache_inv_insertAll [OF cache_inv_newBlockCache])
  have r: "Root (heap demoCache 0) = 1" and sl: "Slot (heap demoCache 0) = 5"
    by (simp_all add: demoCache_def cache_eval)
  have c: "getBlockByRoot (Root (heap demoCache 0)) demoCache = Some 0"
    unfolding r by (simp add: demoCache_def cache_eval)
  have b5: "getBlocksBySlot 5 demoCache = [0, 1]" and b6: "getBlocksBySlot 6 demoCache = [2]"
    and g2: "getBlockByRoot 2 demoCache = Some 1"
    by (simp_all add: demoCache_def cache_eval)
  from removeBlock_frame [OF i c] show ?thesis
    using i c g2 by (simp add: r sl b5 b6)
qed


subsection \<open>Canonical distance\<close>

lemma slotsDescendD:
  "slotsDescend cache \<Longrightarrow> rootMap cache root = Some b \<Longrightarrow> GetParentRoot (heap cache b) = Some parent
   \<Longrightarrow> rootMap cache parent = Some pb \<Longrightarrow> Slot (heap cache pb) < Slot (heap cache b)"
  unfolding slotsDescend_def by blast

lemma parentHops_start_cached:
  "parentHops cache x j = Some r \<Longrightarrow> rootMap cache r = Some rb \<Longrightarrow> \<exists>cur. rootMap cache x = Some cur"
  by (cases j) (auto simp: getBlockByRoot_def split: option.splits)

lemma parentHops_slot:
  assumes desc: "slotsDescend cache"
  shows "rootMap cache x = Some cur \<Longrightarrow> parentHops cache x j = Some r \<Longrightarrow> rootMap cache r = Some rb
         \<Longrightarrow> unat (Slot (heap cache rb)) + j \<le> unat (Slot (heap cache cur))"
proof (induction j arbitrary: x cur)
  case 0
  then show ?case by simp
next
  case (Suc j)
  from Suc.prems obtain parent where
    p: "GetParentRoot (heap cache cur) = Some parent" and h: "parentHops cache parent j = Some r"
    by (auto simp: getBlockByRoot_def split: option.splits)
  from parentHops_start_cached [OF h Suc.prems(3)] obtain pb where pb: "rootMap cache parent = Some pb"
    by blast
  have "Slot (heap cache pb) < Slot (heap cache cur)"
    by (rule slotsDescendD [OF desc Suc.prems(1) p pb])
  then have "unat (Slot (heap cache pb)) < unat (Slot (heap cache cur))"
    by (simp add: word_less_nat_alt)
  moreover have "unat (Slot (heap cache rb)) + j \<le> unat (Slot (heap cache pb))"
    by (rule Suc.IH [OF pb h Suc.prems(3)])
  ultimately show ?case by simp
qed

lemma parentHops_no_cycle:
  assumes "slotsDescend cache" "rootMap cache r = Some rb" "parentHops cache r j = Some r"
  shows "j = 0"
  using parentHops_slot [OF assms(1) assms(2) assms(3) assms(2)] by simp

lemma unat_u64_bound: "unat (w :: u64) < 2 ^ 64"
  using unsigned_less [of w, where 'a = nat] by simp

lemma unat_of_nat_u64: "d < 2 ^ 64 \<Longrightarrow> unat (of_nat d :: u64) = d"
  by (simp add: unat_of_nat)

lemma unat_succ_u64: "unat (d :: u64) + 1 < 2 ^ 64 \<Longrightarrow> unat (d + 1) = unat d + 1"
  by (simp add: unat_word_ariths)



lemma canonicalWalk_correct:
  assumes desc: "slotsDescend cache" and rb: "rootMap cache r = Some rb"
  shows "rootMap cache x = Some cur \<Longrightarrow> x \<noteq> r \<Longrightarrow> unat dist + unat (Slot (heap cache cur)) < 2 ^ 64 \<Longrightarrow>
     (\<forall>j>0. parentHops cache x j = Some r \<longrightarrow> (m = 0 \<or> unat dist + j \<le> unat m) \<longrightarrow>
          canonicalWalk cache rb r m cur dist = Some (True, dist + of_nat j) \<and> unat dist + j < 2 ^ 64)
   \<and> ((\<forall>j>0. parentHops cache x j = Some r \<longrightarrow> \<not> (m = 0 \<or> unat dist + j \<le> unat m)) \<longrightarrow>
          canonicalWalk cache rb r m cur dist = Some (False, 0))"
proof (induction "unat (Slot (heap cache cur))" arbitrary: x cur dist rule: less_induct)
  case less
  note cur = less.prems(1) and xr = less.prems(2) and bound = less.prems(3)
  note unf = canonicalWalk.simps [of cache rb r m cur dist]
  have below: "unat (Slot (heap cache rb)) + j \<le> unat (Slot (heap cache cur))"
    if "parentHops cache x j = Some r" for j
    by (rule parentHops_slot [OF desc cur that rb])
  show ?case
  proof (cases "Slot (heap cache cur) < Slot (heap cache rb)")
    case True
    then have w: "canonicalWalk cache rb r m cur dist = Some (False, 0)"
      by (subst unf) simp
    have "parentHops cache x j \<noteq> Some r" if "0 < j" for j
      using below [of j] True that by (auto simp: word_less_nat_alt)
    with w show ?thesis by simp
  next
    case notless: False
    show ?thesis
    proof (cases "GetParentRoot (heap cache cur)")
      case None
      then have w: "canonicalWalk cache rb r m cur dist = Some (False, 0)"
        using notless by (subst unf) simp
      have "parentHops cache x j \<noteq> Some r" if "0 < j" for j
        using that cur None by (cases j) (simp_all add: getBlockByRoot_def)
      with w show ?thesis by simp
    next
      case (Some pr)
      have hop: "parentHops cache x (Suc j) = parentHops cache pr j" for j
        using cur Some by (simp add: getBlockByRoot_def)
      show ?thesis
      proof (cases "pr = r")
        case True
        have "Slot (heap cache rb) < Slot (heap cache cur)"
          using slotsDescendD [OF desc cur Some] rb True by simp
        then have pos: "0 < unat (Slot (heap cache cur))"
          by (simp add: word_less_nat_alt)
        then have nowrap: "unat (dist + 1) = unat dist + 1"
          using bound by (intro unat_succ_u64) simp
        have only1: "j = 1" if "0 < j" "parentHops cache x j = Some r" for j
        proof -
          from that obtain k where k: "j = Suc k" by (cases j) auto
          with that hop [of k] True have "parentHops cache r k = Some r" by simp
          from parentHops_no_cycle [OF desc rb this] k show ?thesis by simp
        qed
        have one: "parentHops cache x 1 = Some r"
          using hop [of 0] True by simp
        have test: "(0 < m \<and> m < dist + 1) \<longleftrightarrow> \<not> (m = 0 \<or> unat dist + 1 \<le> unat m)"
          by (auto simp: word_less_nat_alt nowrap unat_gt_0 unat_eq_0)
        have w: "canonicalWalk cache rb r m cur dist =
                  (if 0 < m \<and> m < dist + 1 then Some (False, 0) else Some (True, dist + 1))"
          using notless Some True by (subst unf) simp
        show ?thesis
        proof (intro conjI allI impI)
          fix j assume j: "0 < j" "parentHops cache x j = Some r" "m = 0 \<or> unat dist + j \<le> unat m"
          then have j1: "j = 1" using only1 by blast
          with j test show "canonicalWalk cache rb r m cur dist = Some (True, dist + of_nat j)"
            by (simp add: w)
          from j1 pos bound show "unat dist + j < 2 ^ 64" by simp
        next
          assume "\<forall>j>0. parentHops cache x j = Some r \<longrightarrow> \<not> (m = 0 \<or> unat dist + j \<le> unat m)"
          with one have "\<not> (m = 0 \<or> unat dist + 1 \<le> unat m)" by (metis zero_less_one)
          with test show "canonicalWalk cache rb r m cur dist = Some (False, 0)"
            by (simp add: w)
        qed
      next
        case prr: False
        show ?thesis
        proof (cases "rootMap cache pr")
          case None
          have w: "canonicalWalk cache rb r m cur dist = Some (False, 0)"
            using notless Some prr None by (subst unf) (simp add: getBlockByRoot_def)
          have "parentHops cache x j \<noteq> Some r" if "0 < j" for j
          proof -
            from that obtain k where k: "j = Suc k" by (cases j) auto
            have "parentHops cache pr k \<noteq> Some r"
              using prr None by (cases k) (simp_all add: getBlockByRoot_def)
            with k hop show ?thesis by simp
          qed
          with w show ?thesis by simp
        next
          case nxt: (Some nxt)
          have lt: "Slot (heap cache nxt) < Slot (heap cache cur)"
            by (rule slotsDescendD [OF desc cur Some nxt])
          then have ltn: "unat (Slot (heap cache nxt)) < unat (Slot (heap cache cur))"
            by (simp add: word_less_nat_alt)
          then have nowrap: "unat (dist + 1) = unat dist + 1"
            using bound by (intro unat_succ_u64) simp
          have bound': "unat (dist + 1) + unat (Slot (heap cache nxt)) < 2 ^ 64"
            using ltn bound nowrap by simp
          note IH = less.hyps [OF ltn nxt prr bound']
          show ?thesis
          proof (cases "0 < m \<and> m < dist + 1")
            case True
            then have w: "canonicalWalk cache rb r m cur dist = Some (False, 0)"
              using notless Some by (subst unf) simp
            from True have "\<not> (m = 0 \<or> unat dist + j \<le> unat m)" if "0 < j" for j
              using that by (auto simp: word_less_nat_alt nowrap)
            with w show ?thesis by simp
          next
            case False
            then have w: "canonicalWalk cache rb r m cur dist = canonicalWalk cache rb r m nxt (dist + 1)"
              using notless Some prr nxt by (subst unf) (auto simp add: getBlockByRoot_def)
            show ?thesis
            proof (intro conjI allI impI)
              fix j assume j: "0 < j" "parentHops cache x j = Some r" "m = 0 \<or> unat dist + j \<le> unat m"
              then obtain k where k: "j = Suc k" by (cases j) auto
              with j hop have hk: "parentHops cache pr k = Some r" by simp
              with prr have kpos: "0 < k" by (cases k) auto
              from j k nowrap have ck: "m = 0 \<or> unat (dist + 1) + k \<le> unat m" by auto
              from IH kpos hk ck
              have r: "canonicalWalk cache rb r m nxt (dist + 1) = Some (True, dist + 1 + of_nat k)"
                and b: "unat (dist + 1) + k < 2 ^ 64" by blast+
              from r k show "canonicalWalk cache rb r m cur dist = Some (True, dist + of_nat j)"
                by (simp add: w add.assoc)
              from b k nowrap show "unat dist + j < 2 ^ 64" by simp
            next
              assume no: "\<forall>j>0. parentHops cache x j = Some r \<longrightarrow> \<not> (m = 0 \<or> unat dist + j \<le> unat m)"
              have "\<forall>k>0. parentHops cache pr k = Some r \<longrightarrow> \<not> (m = 0 \<or> unat (dist + 1) + k \<le> unat m)"
              proof (intro allI impI)
                fix k assume "0 < k" "parentHops cache pr k = Some r"
                then have "parentHops cache x (Suc k) = Some r" using hop by simp
                with no have "\<not> (m = 0 \<or> unat dist + Suc k \<le> unat m)" by blast
                then show "\<not> (m = 0 \<or> unat (dist + 1) + k \<le> unat m)" using nowrap by simp
              qed
              with IH show "canonicalWalk cache rb r m cur dist = Some (False, 0)"
                by (simp add: w)
            qed
          qed
        qed
      qed
    qed
  qed
qed


lemma parentHops_None_mono:
  "parentHops cache x a = None \<Longrightarrow> parentHops cache x (a + n) = None"
  by (induction a arbitrary: x) (auto split: option.splits)

lemma getCanonicalDistance_core:
  assumes inv: "cache_inv cache" and desc: "slotsDescend cache"
      and rb: "getBlockByRoot r cache = Some rb" and hb: "getBlockByRoot head cache = Some hb"
  shows "(\<forall>d. parentHops cache head d = Some r \<longrightarrow> (m = 0 \<or> d \<le> unat m) \<longrightarrow>
            getCanonicalDistance r head m cache = Some (True, of_nat d) \<and> d < 2 ^ 64)
       \<and> ((\<forall>d. parentHops cache head d = Some r \<longrightarrow> \<not> (m = 0 \<or> d \<le> unat m)) \<longrightarrow>
            getCanonicalDistance r head m cache = Some (False, 0))"
proof (cases "head = r")
  case True
  have rt: "Root (heap cache hb) = r"
    using cache_inv_rootD [OF inv] hb True by (simp add: getBlockByRoot_def)
  then have g: "getCanonicalDistance r head m cache = Some (True, 0)"
    using rb hb by (simp add: getCanonicalDistance_def)
  have z: "d = 0" if "parentHops cache head d = Some r" for d
    using parentHops_no_cycle [OF desc _ that [unfolded True]] rb by (simp add: getBlockByRoot_def)
  have h0: "parentHops cache head 0 = Some r" using True by simp
  show ?thesis
  proof (intro conjI allI impI)
    fix d assume "parentHops cache head d = Some r"
    then have "d = 0" by (rule z)
    then show "getCanonicalDistance r head m cache = Some (True, of_nat d)" and "d < 2 ^ 64"
      using g by simp_all
  next
    assume "\<forall>d. parentHops cache head d = Some r \<longrightarrow> \<not> (m = 0 \<or> d \<le> unat m)"
    with h0 have False by (metis le0)
    then show "getCanonicalDistance r head m cache = Some (False, 0)" ..
  qed
next
  case False
  have rb': "rootMap cache r = Some rb" and hb': "rootMap cache head = Some hb"
    using rb hb by (simp_all add: getBlockByRoot_def)
  have "Root (heap cache hb) = head"
    by (rule cache_inv_rootD [OF inv hb'])
  with False have g: "getCanonicalDistance r head m cache = canonicalWalk cache rb r m hb 0"
    using rb hb by (simp add: getCanonicalDistance_def)
  have pos: "0 < d" if "parentHops cache head d = Some r" for d
    using that False by (cases d) auto
  have b: "unat (0 :: u64) + unat (Slot (heap cache hb)) < 2 ^ 64"
    using unat_u64_bound [of "Slot (heap cache hb)"] by simp
  from canonicalWalk_correct [OF desc rb' hb' False b, of m] pos
  show ?thesis unfolding g by auto
qed

text \<open>
  C2 (as amended). In a cache whose cached blocks have a greater slot than their cached
  parent, for cached roots \<open>r\<close> and \<open>head\<close> and any \<open>maxDistance\<close> \<open>m\<close>:
  \<^verbatim>\<open>getCanonicalDistance(r, head, m)\<close> always returns; it returns \<open>(true, d)\<close> exactly when
  \<open>r\<close> is reached from \<open>head\<close> by exactly \<open>d\<close> parent-root hops and, for \<open>m > 0\<close>,
  \<open>d \<le> m\<close> (\<open>m = 0\<close> is unbounded); every negative answer carries distance 0; the
  answer is negative when \<open>r\<close>'s slot exceeds \<open>head\<close>'s slot, and when a parent link is
  missing (block not cached, or parent root not loaded) before \<open>r\<close> is reached.
\<close>

theorem getCanonicalDistance_on_chain:
  assumes inv: "cache_inv cache" and desc: "slotsDescend cache"
      and rb: "getBlockByRoot r cache = Some rb" and hb: "getBlockByRoot head cache = Some hb"
  shows "(\<exists>res. getCanonicalDistance r head m cache = Some res)
       \<and> (\<forall>d. (getCanonicalDistance r head m cache = Some (True, of_nat d) \<and> d < 2 ^ 64)
               \<longleftrightarrow> (parentHops cache head d = Some r \<and> (m = 0 \<or> d \<le> unat m)))
       \<and> (\<forall>dist. getCanonicalDistance r head m cache = Some (False, dist) \<longrightarrow> dist = 0)
       \<and> (Slot (heap cache hb) < Slot (heap cache rb) \<longrightarrow>
            getCanonicalDistance r head m cache = Some (False, 0))
       \<and> (\<forall>k. parentHops cache head (Suc k) = None \<longrightarrow> (\<forall>j\<le>k. parentHops cache head j \<noteq> Some r) \<longrightarrow>
            getCanonicalDistance r head m cache = Some (False, 0))"
proof -
  note core = getCanonicalDistance_core [OF inv desc rb hb, of m]
  from core have yes: "getCanonicalDistance r head m cache = Some (True, of_nat d) \<and> d < 2 ^ 64"
    if "parentHops cache head d = Some r" "m = 0 \<or> d \<le> unat m" for d
    using that by blast
  from core have no: "getCanonicalDistance r head m cache = Some (False, 0)"
    if "\<forall>d. parentHops cache head d = Some r \<longrightarrow> \<not> (m = 0 \<or> d \<le> unat m)"
    using that by blast
  have ex: "\<exists>res. getCanonicalDistance r head m cache = Some res"
    using yes no by (cases "\<exists>d. parentHops cache head d = Some r \<and> (m = 0 \<or> d \<le> unat m)") auto
  have iff: "(getCanonicalDistance r head m cache = Some (True, of_nat d) \<and> d < 2 ^ 64)
               \<longleftrightarrow> (parentHops cache head d = Some r \<and> (m = 0 \<or> d \<le> unat m))" for d
  proof
    assume a: "getCanonicalDistance r head m cache = Some (True, of_nat d) \<and> d < 2 ^ 64"
    then have "\<not> (\<forall>d. parentHops cache head d = Some r \<longrightarrow> \<not> (m = 0 \<or> d \<le> unat m))"
      using no by auto
    then obtain d' where d': "parentHops cache head d' = Some r" "m = 0 \<or> d' \<le> unat m" by blast
    from yes [OF d'] a have "(of_nat d :: u64) = of_nat d'" and "d' < 2 ^ 64" and "d < 2 ^ 64" by auto
    then have "d = d'"
      using unat_of_nat_u64 [of d] unat_of_nat_u64 [of d'] by metis
    with d' show "parentHops cache head d = Some r \<and> (m = 0 \<or> d \<le> unat m)" by simp
  next
    assume "parentHops cache head d = Some r \<and> (m = 0 \<or> d \<le> unat m)"
    then show "getCanonicalDistance r head m cache = Some (True, of_nat d) \<and> d < 2 ^ 64"
      using yes by blast
  qed
  have fz: "dist = 0" if "getCanonicalDistance r head m cache = Some (False, dist)" for dist
    using yes no that
    by (cases "\<exists>d. parentHops cache head d = Some r \<and> (m = 0 \<or> d \<le> unat m)") auto
  have slot: "getCanonicalDistance r head m cache = Some (False, 0)"
    if "Slot (heap cache hb) < Slot (heap cache rb)"
  proof (rule no, intro allI impI)
    fix d assume "parentHops cache head d = Some r"
    from parentHops_slot [OF desc _ this, of hb rb] rb hb that
    show "\<not> (m = 0 \<or> d \<le> unat m)"
      by (simp add: getBlockByRoot_def word_less_nat_alt)
  qed
  have gap: "getCanonicalDistance r head m cache = Some (False, 0)"
    if "parentHops cache head (Suc k) = None" "\<forall>j\<le>k. parentHops cache head j \<noteq> Some r" for k
  proof (rule no, intro allI impI)
    fix d assume d: "parentHops cache head d = Some r"
    with that(2) have "Suc k \<le> d" by (metis not_less_eq_eq)
    then obtain n where "d = Suc k + n" by (metis le_Suc_ex)
    with parentHops_None_mono [OF that(1), of n] d show "\<not> (m = 0 \<or> d \<le> unat m)" by simp
  qed
  from ex iff fz slot gap show ?thesis by blast
qed


lemma cache_inv_loadParentRoot: "cache_inv cache \<Longrightarrow> cache_inv (loadParentRoot block parent cache)"
  by (simp add: cache_inv_def loadParentRoot_def)

lemma chainCache_rootMap: "rootMap chainCache = [1 \<mapsto> 0, 2 \<mapsto> Suc 0, 3 \<mapsto> Suc (Suc 0)]"
  by (simp add: chainCache_def loadParentRoot_def cache_eval)

lemma chainCache_heap:
  "heap chainCache 0 = newBlock 1 5"
  "heap chainCache (Suc 0) = (newBlock 2 6)\<lparr>parentRoot := Some 1\<rparr>"
  "heap chainCache (Suc (Suc 0)) = (newBlock 3 7)\<lparr>parentRoot := Some 2\<rparr>"
  by (simp_all add: chainCache_def loadParentRoot_def cache_eval numeral_2_eq_2)

lemma slotsDescend_chainCache: "slotsDescend chainCache"
  unfolding slotsDescend_def chainCache_rootMap
  by (auto simp: chainCache_heap GetParentRoot_def newBlock_def split: if_splits)

theorem getCanonicalDistance_on_chain_witness:
  "cache_inv chainCache \<and> slotsDescend chainCache
   \<and> getBlockByRoot 1 chainCache = Some 0 \<and> getBlockByRoot 3 chainCache = Some 2
   \<and> parentHops chainCache 3 2 = Some 1
   \<and> getCanonicalDistance 1 3 0 chainCache = Some (True, 2)
   \<and> getCanonicalDistance 1 3 1 chainCache = Some (False, 0)"
proof -
  have i: "cache_inv chainCache"
    unfolding chainCache_def
    by (intro cache_inv_loadParentRoot cache_inv_insertAll cache_inv_newBlockCache)
  have r: "getBlockByRoot 1 chainCache = Some 0" and h: "getBlockByRoot 3 chainCache = Some 2"
    by (simp_all add: getBlockByRoot_def chainCache_rootMap numeral_2_eq_2)
  have p: "parentHops chainCache 3 2 = Some 1"
    by (simp add: numeral_2_eq_2 getBlockByRoot_def chainCache_rootMap chainCache_heap
        GetParentRoot_def newBlock_def)
  note t0 = getCanonicalDistance_on_chain [OF i slotsDescend_chainCache r h, of 0]
  note t1 = getCanonicalDistance_on_chain [OF i slotsDescend_chainCache r h, of 1]
  from t0 p have a: "getCanonicalDistance 1 3 0 chainCache = Some (True, 2)"
    by (metis of_nat_numeral)
  from t1 obtain res where res: "getCanonicalDistance 1 3 1 chainCache = Some res" by blast
  have "fst res = False"
  proof (rule ccontr)
    assume "fst res \<noteq> False"
    then have g: "getCanonicalDistance 1 3 1 chainCache = Some (True, of_nat (unat (snd res)))"
      using res by (cases res) simp
    have "unat (snd res) < 2 ^ 64" by (rule unat_u64_bound)
    with t1 g have q: "parentHops chainCache 3 (unat (snd res)) = Some 1" and "unat (snd res) \<le> 1"
      by auto
    then have "unat (snd res) = 0 \<or> unat (snd res) = 1" by auto
    with q show False
      by (auto simp: getBlockByRoot_def chainCache_rootMap chainCache_heap GetParentRoot_def newBlock_def)
  qed
  with t1 res have b: "getCanonicalDistance 1 3 1 chainCache = Some (False, 0)"
    by (cases res) auto
  from i slotsDescend_chainCache r h p a b show ?thesis by blast
qed

text \<open>
  Without the order of slots the equivalence fails: in \<open>invertedCache\<close> root 2 is one
  parent-root hop above root 1, but its slot is the higher one and the walk gives up at
  its first test.
\<close>

theorem getCanonicalDistance_inverted_slots:
  "getBlockByRoot 2 invertedCache = Some 1 \<and> getBlockByRoot 1 invertedCache = Some 0
   \<and> parentHops invertedCache 1 1 = Some 2
   \<and> getCanonicalDistance 2 1 0 invertedCache = Some (False, 0)"
proof -
  have m: "rootMap invertedCache = [1 \<mapsto> 0, 2 \<mapsto> Suc 0]"
    by (simp add: invertedCache_def loadParentRoot_def cache_eval)
  have hp: "heap invertedCache 0 = (newBlock 1 5)\<lparr>parentRoot := Some 2\<rparr>"
    "heap invertedCache (Suc 0) = newBlock 2 6"
    by (simp_all add: invertedCache_def loadParentRoot_def cache_eval)
  have "canonicalWalk invertedCache 1 2 0 0 0 = Some (False, 0)"
    by (subst canonicalWalk.simps) (simp add: hp newBlock_def)
  then show ?thesis
    by (simp add: getCanonicalDistance_def getBlockByRoot_def m hp newBlock_def GetParentRoot_def)
qed


section \<open>Properties of the deposit indexer\<close>

subsection \<open>Bytes and hashes\<close>

lemma length_leBytes [simp]: "length (leBytes n v) = n"
  by (induction n arbitrary: v) simp_all

lemma leValue_leBytes: "v < 256 ^ n \<Longrightarrow> leValue (leBytes n v) = v"
proof (induction n arbitrary: v)
  case 0
  then show ?case by simp
next
  case (Suc n)
  then have "v div 256 < 256 ^ n"
    by (simp add: less_mult_imp_div_less mult.commute)
  then have "leValue (leBytes n (v div 256)) = v div 256" by (rule Suc.IH)
  moreover have "unat (of_nat (v mod 256) :: 8 word) = v mod 256"
    by (simp add: unat_of_nat)
  ultimately show ?case by simp
qed

lemma bytesToHash_hashBytes [simp]: "bytesToHash (hashBytes h) = Some h"
proof -
  have "unat h < 2 ^ 256"
    using unsigned_less [of h, where 'a = nat] by simp
  also have "(2::nat) ^ 256 = 256 ^ 32" by simp
  finally have "leValue (leBytes 32 (unat h)) = unat h" by (rule leValue_leBytes)
  then show ?thesis by (simp add: bytesToHash_def hashBytes_def)
qed

lemma hashBytes_inject [simp]: "hashBytes a = hashBytes b \<longleftrightarrow> a = b"
  by (metis bytesToHash_hashBytes option.inject)




text \<open>
  C5. When the run reads an execution block number for the (justified, called finalized)
  checkpoint block that is lower than the loaded \<^verbatim>\<open>state.FinalBlock\<close>, it returns the error
  "finalized block number smaller than index state" and nothing else happens: no network
  call and no context (the trace is as before, so neither pass ran), the database with the
  stored checkpoint is as before, the dedup map is as before, and the state in memory is
  the one loaded.
\<close>

theorem runDepositIndexer_finalized_behind:
  assumes "GetJustifiedCheckpoint env = (justifiedEpoch, justifiedRoot)"
      and "justifiedEpoch > 0"
      and "GetBlockByRoot env justifiedRoot = Some finalizedBlock"
      and "GetBlockIndex finalizedBlock = Some indexVals"
      and "state (if state ds = None then loadState ds else ds) = Some st"
      and "ExecutionNumber indexVals < FinalBlock st"
  shows "\<exists>ds'. runDepositIndexer env ds
            = Some (Some (FinalizedBelowIndexState (ExecutionNumber indexVals) (FinalBlock st)), ds')
          \<and> ds' = (if state ds = None then loadState ds else ds)
          \<and> db ds' = db ds \<and> trace ds' = trace ds
          \<and> unfinalizedDeposits ds' = unfinalizedDeposits ds
          \<and> state ds' = Some st"
  using assms
  by (auto simp: runDepositIndexer_def Let_def loadState_def)


lemmas env_eval = quietEnv_def behindEnv_def firstClientDownEnv_def stateWriteFailsEnv_def
  blockAt_def freshIndexer_def twoClientFork_def newBlock_def GetBlockIndex_def

theorem runDepositIndexer_finalized_behind_witness:
  "runDepositIndexer behindEnv (freshIndexer 20)
     = Some (Some (FinalizedBelowIndexState 10 20), freshIndexer 20)"
proof -
  have "\<exists>ds'. runDepositIndexer behindEnv (freshIndexer 20)
            = Some (Some (FinalizedBelowIndexState
                 (ExecutionNumber \<lparr> ExecutionNumber = 10, ExecutionHash = 0 \<rparr>)
                 (FinalBlock \<lparr> FinalBlock = 20, HeadBlock = 20 \<rparr>)), ds')
          \<and> ds' = (if state (freshIndexer 20) = None then loadState (freshIndexer 20) else freshIndexer 20)
          \<and> db ds' = db (freshIndexer 20) \<and> trace ds' = trace (freshIndexer 20)
          \<and> unfinalizedDeposits ds' = unfinalizedDeposits (freshIndexer 20)
          \<and> state ds' = Some \<lparr> FinalBlock = 20, HeadBlock = 20 \<rparr>"
    by (rule runDepositIndexer_finalized_behind [of behindEnv 3 9 "blockAt 10"])
       (simp_all add: env_eval)
  then show ?thesis by (auto simp: freshIndexer_def)
qed


text \<open>
  The domain matters: the same deposit that verifies under the genesis deposit domain
  does not verify in an indexer holding another domain.
\<close>

lemma checkDepositValidity_other_domain:
  "checkDepositValidity goodEnv (freshIndexer 5) (someDeposit (replicate 48 1))
     = Inr (someDeposit (replicate 48 1))"
  by (simp add: checkDepositValidity_def goodEnv_def quietEnv_def someDeposit_def freshIndexer_def
      Let_def)


text \<open>
  C6. A fork with two clients, the first of which cannot be reached: the first turn of the
  loop returns the error of \<^verbatim>\<open>loadFilteredLogs\<close> from the pass. The second client is never
  asked; the trace holds one context, one log query to client 0 and the deferred
  cancellation.
\<close>

theorem recent_pass_no_retry:
  "processRecentBlocksForFork firstClientDownEnv twoClientFork (freshIndexer 5)
     = (Some FetchLogsFailed,
        (freshIndexer 5)\<lparr> trace :=
           [EvContextCreated 0,
            EvFilterLogs 0 0 \<lparr> FromBlock = 6, ToBlock = 2 ^ 64 - 1, Addresses = [0] \<rparr>,
            EvContextCanceled 0] \<rparr>)"
  by (simp add: processRecentBlocksForFork_def recentAttempt_def loadFilteredLogs_def emit_def
      recentQuery_def env_eval unsigned_minus_1_eq_mask mask_eq_exp_minus_1)


subsection \<open>The trace only grows\<close>

lemma trace_emit [simp]: "trace (emit ev ds) = trace ds @ [ev]"
  by (simp add: emit_def)

lemma resolveTx_trace: "prefix (trace ds) (trace (snd (resolveTx env ctx client log loaded ds)))"
  by (auto simp: resolveTx_def Let_def loadTransactionByHash_def loadHeaderByNumber_def
      split: option.splits prod.splits)

lemma recentLog_trace: "prefix (trace ds) (trace (snd (recentLog env ctx client headFork log loaded ds)))"
proof -
  have "prefix (trace ds) (trace ds1)" if "resolveTx env ctx client log loaded ds = (r, ds1)" for r ds1
    using resolveTx_trace [of ds env ctx client log loaded] that by simp
  then show ?thesis
    by (auto simp: recentLog_def Let_def split: list.splits option.splits prod.splits sum.splits)
qed

lemma recentLogs_trace:
  "prefix (trace ds) (trace (snd (recentLogs env ctx client headFork logs loaded depositTxs ds)))"
proof (induction logs arbitrary: loaded depositTxs ds)
  case Nil
  then show ?case by simp
next
  case (Cons log logs)
  have step: "prefix (trace ds) (trace ds1)"
    if "recentLog env ctx client headFork log loaded ds = (r, ds1)" for r ds1
    using recentLog_trace [of ds env ctx client headFork log loaded] that by simp
  show ?case
    by (auto simp: split: prod.splits sum.splits option.splits
        intro: prefix_order.trans [OF step Cons.IH] step)
qed

lemma RunDBTransaction_trace:
  assumes "\<And>tx d. trace (snd (snd (handler tx d))) = trace d"
  shows "trace (snd (RunDBTransaction env handler ds)) = trace ds"
  using assms [of "db ds" ds]
  by (auto simp: RunDBTransaction_def split: prod.splits option.splits)

lemma persistRecentDepositTxs_trace: "trace (snd (persistRecentDepositTxs env deposits ds)) = trace ds"
  unfolding persistRecentDepositTxs_def
  by (rule RunDBTransaction_trace) (auto split: sum.splits)

lemma persistChunks_trace:
  "(\<And>deposits d. trace (snd (persist deposits d)) = trace d)
   \<Longrightarrow> trace (snd (persistChunks persist depositTxs ds)) = trace ds"
proof (induction persist depositTxs ds rule: persistChunks.induct)
  case (1 persist depositTxs ds)
  show ?case
  proof (cases "depositTxs = []")
    case True
    then show ?thesis by (subst persistChunks.simps) simp
  next
    case False
    obtain r ds1 where p: "persist (take 500 depositTxs) ds = (r, ds1)" by force
    with "1.prems" [of "take 500 depositTxs" ds] have t: "trace ds1 = trace ds" by simp
    show ?thesis
    proof (cases r)
      case None
      with "1.IH" [OF False p [symmetric, unfolded None] refl "1.prems"] False p t show ?thesis
        by (subst persistChunks.simps) simp
    next
      case (Some e)
      with False p t show ?thesis by (subst persistChunks.simps) simp
    qed
  qed
qed

lemma recordUnfinalized_trace: "trace (snd (recordUnfinalized depositTxs ds)) = trace ds"
  by (induction depositTxs arbitrary: ds) (auto simp: Let_def split: option.splits)


lemma recentBatch_trace:
  "prefix (trace ds) (trace (snd (recentBatch env ctx client headFork logs ds)))"
proof -
  obtain r ds4 where l: "recentLogs env ctx client headFork logs None [] ds = (r, ds4)" by force
  have p4: "prefix (trace ds) (trace ds4)"
    using recentLogs_trace [of ds env ctx client headFork logs None "[]"] l by simp
  show ?thesis
  proof (cases r)
    case (Inl e)
    with l p4 show ?thesis by (simp add: recentBatch_def)
  next
    case (Inr depositTxs)
    obtain r5 ds5 where c: "persistChunks (persistRecentDepositTxs env) depositTxs ds4 = (r5, ds5)"
      by force
    have t5: "trace ds5 = trace ds4"
      using persistChunks_trace [of "persistRecentDepositTxs env" depositTxs ds4, OF persistRecentDepositTxs_trace] c
      by simp
    obtain r6 ds6 where u: "recordUnfinalized depositTxs ds5 = (r6, ds6)" by force
    have t6: "trace ds6 = trace ds5"
      using recordUnfinalized_trace [of depositTxs ds5] u by simp
    from l Inr c u p4 t5 t6 show ?thesis
      by (auto split: option.splits simp: prefix_def recentBatch_def)
  qed
qed

lemma recentAttempt_query:
  assumes "clients headFork \<noteq> []" and "state ds = Some st"
  shows "prefix
           (trace ds @ (case ctxCancel of None \<Rightarrow> [] | Some c \<Rightarrow> [EvContextCanceled c])
             @ [EvContextCreated (length (trace ds) + (case ctxCancel of None \<Rightarrow> 0 | Some c \<Rightarrow> 1)),
                EvFilterLogs (length (trace ds) + (case ctxCancel of None \<Rightarrow> 0 | Some c \<Rightarrow> 1))
                  (clients headFork ! (retryCount mod length (clients headFork)))
                  (recentQuery env st elHeadBlockNumber)])
           (trace (snd (snd (recentAttempt env headFork elHeadBlockNumber retryCount (ctxCancel, ds)))))"
proof -
  define ds1 where "ds1 = (case ctxCancel of None \<Rightarrow> ds | Some c \<Rightarrow> emit (EvContextCanceled c) ds)"
  define ctx where "ctx = length (trace ds1)"
  define client where "client = clients headFork ! (retryCount mod length (clients headFork))"
  define ds3 where "ds3 = emit (EvFilterLogs ctx client (recentQuery env st elHeadBlockNumber))
                            (emit (EvContextCreated ctx) ds1)"
  have s1: "state ds1 = Some st"
    using assms(2) by (simp add: ds1_def emit_def split: option.splits)
  have t3: "trace ds3 = trace ds @ (case ctxCancel of None \<Rightarrow> [] | Some c \<Rightarrow> [EvContextCanceled c])
             @ [EvContextCreated (length (trace ds) + (case ctxCancel of None \<Rightarrow> 0 | Some c \<Rightarrow> 1)),
                EvFilterLogs (length (trace ds) + (case ctxCancel of None \<Rightarrow> 0 | Some c \<Rightarrow> 1))
                  client (recentQuery env st elHeadBlockNumber)]"
    by (simp add: ds3_def ctx_def ds1_def split: option.splits)
  have "prefix (trace ds3)
          (trace (snd (snd (recentAttempt env headFork elHeadBlockNumber retryCount (ctxCancel, ds)))))"
  proof (cases "FilterLogs env client (recentQuery env st elHeadBlockNumber)")
    case None
    then show ?thesis
      using assms(1) s1
      by (simp add: recentAttempt_def Let_def loadFilteredLogs_def emit_def
          ds1_def [symmetric] ctx_def [symmetric] client_def [symmetric] ds3_def)
  next
    case (Some logs)
    obtain err ds4 where b: "recentBatch env ctx client headFork logs ds3 = (err, ds4)" by force
    have "recentAttempt env headFork elHeadBlockNumber retryCount (ctxCancel, ds) = (err, Some ctx, ds4)"
      using assms Some b
      unfolding ds3_def ctx_def client_def ds1_def
      by (cases ctxCancel) (simp_all add: recentAttempt_def Let_def loadFilteredLogs_def emit_def)
    then show ?thesis
      using recentBatch_trace [of ds3 env ctx client headFork logs] b by simp
  qed
  then show ?thesis unfolding t3 client_def .
qed


lemma recentAttempt_trace:
  "prefix (trace (snd s)) (trace (snd (snd (recentAttempt env headFork elHeadBlockNumber retryCount s))))"
proof -
  obtain ctxCancel ds where s: "s = (ctxCancel, ds)" by (cases s) auto
  show ?thesis
  proof (cases "clients headFork = []")
    case True
    then show ?thesis by (simp add: s recentAttempt_def)
  next
    case False
    show ?thesis
    proof (cases "state ds")
      case None
      then show ?thesis
        using False
        by (cases ctxCancel) (simp_all add: s recentAttempt_def Let_def emit_def)
    next
      case (Some st)
      from recentAttempt_query [OF False Some, of ctxCancel retryCount env elHeadBlockNumber]
      show ?thesis
        unfolding s by (simp add: append_prefixD)
    qed
  qed
qed

lemma recentAttempts_trace:
  "prefix (trace (snd s)) (trace (snd (snd (recentAttempts env headFork elHeadBlockNumber retries s))))"
proof (induction retries arbitrary: s)
  case Nil
  then show ?case by simp
next
  case (Cons retryCount later)
  obtain err s1 where a: "recentAttempt env headFork elHeadBlockNumber retryCount s = (err, s1)"
    by (cases "recentAttempt env headFork elHeadBlockNumber retryCount s") auto
  have p: "prefix (trace (snd s)) (trace (snd s1))"
    using recentAttempt_trace [of s env headFork elHeadBlockNumber retryCount] a by simp
  show ?case
    using a p Cons.IH [of s1]
    by (cases err) (auto intro: prefix_order.trans)
qed

text \<open>
  C10. The upper bound of the log query of the recent pass is the head's execution block
  number minus 1 in \<^verbatim>\<open>uint64\<close>: for a head at execution block 0 it is \<open>2^64 - 1\<close>, the
  query is \<open>[FinalBlock + 1, 2^64 - 1]\<close>, and the pass does send this query, to the
  fork's first client, as the first thing it does after creating its context.
\<close>

theorem recent_query_upper_bound_wraps:
  "ToBlock (recentQuery env st elHeadBlockNumber) = unat (elHeadBlockNumber - 1)
   \<and> recentQuery env st 0
       = \<lparr> FromBlock = unat (FinalBlock st + 1), ToBlock = 2 ^ 64 - 1, Addresses = [depositContract env] \<rparr>
   \<and> (GetCanonicalHead env (forkId_fork headFork) = Some elHeadBlock \<longrightarrow>
      GetBlockIndex elHeadBlock = Some elHeadBlockIndex \<longrightarrow>
      ExecutionNumber elHeadBlockIndex = 0 \<longrightarrow>
      clients headFork \<noteq> [] \<longrightarrow> state ds = Some st \<longrightarrow>
      prefix
        (trace ds @
          [EvContextCreated (length (trace ds)),
           EvFilterLogs (length (trace ds)) (clients headFork ! 0)
             \<lparr> FromBlock = unat (FinalBlock st + 1), ToBlock = 2 ^ 64 - 1,
               Addresses = [depositContract env] \<rparr>])
        (trace (snd (processRecentBlocksForFork env headFork ds))))"
proof (intro conjI impI)
  show "ToBlock (recentQuery env st elHeadBlockNumber) = unat (elHeadBlockNumber - 1)"
    by (simp add: recentQuery_def)
  show q: "recentQuery env st 0
       = \<lparr> FromBlock = unat (FinalBlock st + 1), ToBlock = 2 ^ 64 - 1, Addresses = [depositContract env] \<rparr>"
    by (simp add: recentQuery_def unsigned_minus_1_eq_mask mask_eq_exp_minus_1)
  assume h: "GetCanonicalHead env (forkId_fork headFork) = Some elHeadBlock"
    "GetBlockIndex elHeadBlock = Some elHeadBlockIndex"
    "ExecutionNumber elHeadBlockIndex = 0"
    and c: "clients headFork \<noteq> []" and st: "state ds = Some st"
  obtain err1 s1 where a1: "recentAttempt env headFork 0 0 (None, ds) = (err1, s1)"
    by (cases "recentAttempt env headFork 0 0 (None, ds)") auto
  have p1: "prefix (trace ds @ [EvContextCreated (length (trace ds)),
              EvFilterLogs (length (trace ds)) (clients headFork ! 0) (recentQuery env st 0)])
            (trace (snd s1))"
    using recentAttempt_query [OF c st, of None 0 env 0] a1 by simp
  obtain err cc ds' where r: "recentAttempts env headFork 0 [0, 1, 2] (None, ds) = (err, cc, ds')"
    by (metis prod_cases3)
  have "prefix (trace (snd s1)) (trace ds')"
  proof (cases err1)
    case None
    with a1 r have "recentAttempts env headFork 0 [1, 2] s1 = (err, cc, ds')" by simp
    with recentAttempts_trace [of s1 env headFork 0 "[1, 2]"] show ?thesis by simp
  next
    case (Some e)
    with a1 r show ?thesis by auto
  qed
  with p1 have "prefix (trace ds @ [EvContextCreated (length (trace ds)),
              EvFilterLogs (length (trace ds)) (clients headFork ! 0) (recentQuery env st 0)])
            (trace ds')"
    by (rule prefix_order.trans)
  moreover have "prefix (trace ds') (trace (snd (processRecentBlocksForFork env headFork ds)))"
    using h r by (simp add: processRecentBlocksForFork_def split: option.splits)
  ultimately show "prefix
        (trace ds @
          [EvContextCreated (length (trace ds)),
           EvFilterLogs (length (trace ds)) (clients headFork ! 0)
             \<lparr> FromBlock = unat (FinalBlock st + 1), ToBlock = 2 ^ 64 - 1,
               Addresses = [depositContract env] \<rparr>])
        (trace (snd (processRecentBlocksForFork env headFork ds)))"
    unfolding q by (rule prefix_order.trans)
qed

theorem recent_query_upper_bound_wraps_witness:
  "GetCanonicalHead headAtZeroEnv (forkId_fork twoClientFork) = Some (blockAt 0)
   \<and> GetBlockIndex (blockAt 0) = Some \<lparr> ExecutionNumber = 0, ExecutionHash = 0 \<rparr>
   \<and> clients twoClientFork \<noteq> []
   \<and> state (freshIndexer 5) = Some \<lparr> FinalBlock = 5, HeadBlock = 5 \<rparr>
   \<and> prefix
        [EvContextCreated 0,
         EvFilterLogs 0 0 \<lparr> FromBlock = 6, ToBlock = 18446744073709551615, Addresses = [0] \<rparr>]
        (trace (snd (processRecentBlocksForFork headAtZeroEnv twoClientFork (freshIndexer 5))))"
proof -
  have h: "GetCanonicalHead headAtZeroEnv (forkId_fork twoClientFork) = Some (blockAt 0)"
    "GetBlockIndex (blockAt 0) = Some \<lparr> ExecutionNumber = 0, ExecutionHash = 0 \<rparr>"
    "ExecutionNumber \<lparr> ExecutionNumber = 0, ExecutionHash = 0 \<rparr> = 0"
    "clients twoClientFork \<noteq> []"
    "state (freshIndexer 5) = Some \<lparr> FinalBlock = 5, HeadBlock = 5 \<rparr>"
    by (simp_all add: headAtZeroEnv_def env_eval)
  from recent_query_upper_bound_wraps [of headAtZeroEnv "\<lparr> FinalBlock = 5, HeadBlock = 5 \<rparr>" 0
      twoClientFork "blockAt 0" "\<lparr> ExecutionNumber = 0, ExecutionHash = 0 \<rparr>" "freshIndexer 5"] h
  have "prefix
        (trace (freshIndexer 5) @
          [EvContextCreated (length (trace (freshIndexer 5))),
           EvFilterLogs (length (trace (freshIndexer 5))) (clients twoClientFork ! 0)
             \<lparr> FromBlock = unat (FinalBlock \<lparr> FinalBlock = 5, HeadBlock = 5 \<rparr> + 1), ToBlock = 2 ^ 64 - 1,
               Addresses = [depositContract headAtZeroEnv] \<rparr>])
        (trace (snd (processRecentBlocksForFork headAtZeroEnv twoClientFork (freshIndexer 5))))"
    by blast
  then have "prefix
        [EvContextCreated 0,
         EvFilterLogs 0 0 \<lparr> FromBlock = 6, ToBlock = 18446744073709551615, Addresses = [0] \<rparr>]
        (trace (snd (processRecentBlocksForFork headAtZeroEnv twoClientFork (freshIndexer 5))))"
    by (simp add: headAtZeroEnv_def env_eval)
  with h show ?thesis by blast
qed


subsection \<open>Finalized pass: persistence and checkpoint\<close>

text \<open>What a successful call of \<^verbatim>\<open>persistFinalizedDepositTxs\<close> leaves behind: rows and
  checkpoint are stored together, and the checkpoint in memory is the stored one.\<close>

lemma persistFinalizedDepositTxs_success:
  assumes "persistFinalizedDepositTxs env toBlockNumber deposits ds = (None, ds')"
  shows "\<exists>st. state ds' = Some st \<and> FinalBlock st = toBlockNumber
            \<and> explorer_state (db ds') = Some st
            \<and> deposit_txs (db ds') = deposit_txs (db ds) @ deposits"
  using assms
  by (auto simp: persistFinalizedDepositTxs_def RunDBTransaction_def InsertDepositTxs_def
      SetExplorerState_def Let_def split: if_splits option.splits sum.splits prod.splits)

text \<open>
  C1. Two batches whose persistence fails. In the first the batch [11, 20] has no
  deposits and the write of the checkpoint fails: the transaction is rolled back and the
  stored checkpoint stays at 10, but \<^verbatim>\<open>ds.state.FinalBlock\<close> in memory is 20 already, since
  the handler assigns it before the write. In the second a batch up to block 20 has 501
  deposits and the insert of the second slice fails: the first slice was committed together
  with the checkpoint 20, so the stored checkpoint is past a batch of which one deposit
  was never stored.
\<close>

theorem finalized_checkpoint_not_atomic:
  "processFinalizedBlocks stateWriteFailsEnv 20 (freshIndexer 10)
     = Some (Some (PersistDepositStateFailed UpdateDepositStateFailed),
             (freshIndexer 10)\<lparr>
                state := Some \<lparr> FinalBlock = 20, HeadBlock = 20 \<rparr>,
                trace := [EvContextCreated 0,
                          EvFilterLogs 0 0 \<lparr> FromBlock = 11, ToBlock = 20, Addresses = [0] \<rparr>,
                          EvContextCanceled 0] \<rparr>)
   \<and> explorer_state (db (freshIndexer 10)) = Some \<lparr> FinalBlock = 10, HeadBlock = 10 \<rparr>
   \<and> persistChunks (persistFinalizedDepositTxs secondSliceFailsEnv 20)
         (replicate 501 (someDeposit [])) (freshIndexer 10)
     = (Some (PersistDepositTxsFailed InsertDepositTxsFailed),
        (freshIndexer 10)\<lparr>
           state := Some \<lparr> FinalBlock = 20, HeadBlock = 20 \<rparr>,
           db := \<lparr> deposit_txs = replicate 500 (someDeposit []),
                   explorer_state = Some \<lparr> FinalBlock = 20, HeadBlock = 20 \<rparr> \<rparr> \<rparr>)"
proof (intro conjI)
  have b: "finalizedBatch stateWriteFailsEnv 0 0 20 \<lparr> FinalBlock = 10, HeadBlock = 10 \<rparr>
             (emit (EvContextCreated 0) (freshIndexer 10))
           = (Some (PersistDepositStateFailed UpdateDepositStateFailed),
              (freshIndexer 10)\<lparr>
                state := Some \<lparr> FinalBlock = 20, HeadBlock = 20 \<rparr>,
                trace := [EvContextCreated 0,
                          EvFilterLogs 0 0 \<lparr> FromBlock = 11, ToBlock = 20, Addresses = [0] \<rparr>] \<rparr>)"
    by (simp add: finalizedBatch_def Let_def loadFilteredLogs_def emit_def
        persistFinalizedDepositTxs_def RunDBTransaction_def SetExplorerState_def
        stateWriteFailsEnv_def quietEnv_def freshIndexer_def)
  have l: "finalizedLoop stateWriteFailsEnv 0 0 20 (emit (EvContextCreated 0) (freshIndexer 10))
           = Some (Some (PersistDepositStateFailed UpdateDepositStateFailed),
              (freshIndexer 10)\<lparr>
                state := Some \<lparr> FinalBlock = 20, HeadBlock = 20 \<rparr>,
                trace := [EvContextCreated 0,
                          EvFilterLogs 0 0 \<lparr> FromBlock = 11, ToBlock = 20, Addresses = [0] \<rparr>] \<rparr>)"
  proof -
    have st: "state (emit (EvContextCreated 0) (freshIndexer 10)) = Some \<lparr> FinalBlock = 10, HeadBlock = 10 \<rparr>"
      by (simp add: emit_def freshIndexer_def)
    show ?thesis
      by (subst finalizedLoop.simps) (simp add: st b)
  qed
  show "processFinalizedBlocks stateWriteFailsEnv 20 (freshIndexer 10)
     = Some (Some (PersistDepositStateFailed UpdateDepositStateFailed),
             (freshIndexer 10)\<lparr>
                state := Some \<lparr> FinalBlock = 20, HeadBlock = 20 \<rparr>,
                trace := [EvContextCreated 0,
                          EvFilterLogs 0 0 \<lparr> FromBlock = 11, ToBlock = 20, Addresses = [0] \<rparr>,
                          EvContextCanceled 0] \<rparr>)"
    unfolding processFinalizedBlocks_def
    by (simp add: Let_def stateWriteFailsEnv_def [THEN arg_cong, of getFinalizedClients] quietEnv_def)
       (simp add: l [unfolded freshIndexer_def emit_def, simplified] freshIndexer_def emit_def)
  show "explorer_state (db (freshIndexer 10)) = Some \<lparr> FinalBlock = 10, HeadBlock = 10 \<rparr>"
    by (simp add: freshIndexer_def)
  have first: "persistFinalizedDepositTxs secondSliceFailsEnv 20 (replicate 500 (someDeposit [])) (freshIndexer 10)
      = (None, (freshIndexer 10)\<lparr>
           state := Some \<lparr> FinalBlock = 20, HeadBlock = 20 \<rparr>,
           db := \<lparr> deposit_txs = replicate 500 (someDeposit []),
                   explorer_state = Some \<lparr> FinalBlock = 20, HeadBlock = 20 \<rparr> \<rparr> \<rparr>)"
    by (simp add: persistFinalizedDepositTxs_def RunDBTransaction_def InsertDepositTxs_def
        SetExplorerState_def Let_def secondSliceFailsEnv_def quietEnv_def freshIndexer_def)
  have second: "persistFinalizedDepositTxs secondSliceFailsEnv 20 [someDeposit []]
      ((freshIndexer 10)\<lparr>
           state := Some \<lparr> FinalBlock = 20, HeadBlock = 20 \<rparr>,
           db := \<lparr> deposit_txs = replicate 500 (someDeposit []),
                   explorer_state = Some \<lparr> FinalBlock = 20, HeadBlock = 20 \<rparr> \<rparr> \<rparr>)
      = (Some InsertDepositTxsFailed, (freshIndexer 10)\<lparr>
           state := Some \<lparr> FinalBlock = 20, HeadBlock = 20 \<rparr>,
           db := \<lparr> deposit_txs = replicate 500 (someDeposit []),
                   explorer_state = Some \<lparr> FinalBlock = 20, HeadBlock = 20 \<rparr> \<rparr> \<rparr>)"
    by (simp add: persistFinalizedDepositTxs_def RunDBTransaction_def InsertDepositTxs_def
        SetExplorerState_def Let_def secondSliceFailsEnv_def quietEnv_def freshIndexer_def)
  have t: "take 500 (replicate 501 (someDeposit [])) = replicate 500 (someDeposit [])"
    and d: "drop 500 (replicate 501 (someDeposit [])) = [someDeposit []]"
    by simp_all
  show "persistChunks (persistFinalizedDepositTxs secondSliceFailsEnv 20)
         (replicate 501 (someDeposit [])) (freshIndexer 10)
     = (Some (PersistDepositTxsFailed InsertDepositTxsFailed),
        (freshIndexer 10)\<lparr>
           state := Some \<lparr> FinalBlock = 20, HeadBlock = 20 \<rparr>,
           db := \<lparr> deposit_txs = replicate 500 (someDeposit []),
                   explorer_state = Some \<lparr> FinalBlock = 20, HeadBlock = 20 \<rparr> \<rparr> \<rparr>)"
    apply (subst persistChunks.simps)
    apply (simp only: t d first replicate_empty)
    apply (subst persistChunks.simps)
    apply (simp add: second)
    done
qed


end
